theory Spec2Isabelle
  imports Main "HOL-Library.Word"
begin

section \<open>Vulkan handles, result codes and the data of CommandProcessor.cpp\<close>

text \<open>
  Handles (\<open>VkFence\<close>, \<open>VkSemaphore\<close>, \<open>VkCommandBuffer\<close>, pointers to helpers and to
  \<open>SwapchainStatus\<close>) are natural numbers; \<open>VK_NULL_HANDLE\<close> and \<open>nullptr\<close> are 0.
  A wrapper object (\<open>Fence\<close>, \<open>PrimaryCommandBuffer\<close>) is its handle, and \<open>valid()\<close>
  is "the handle is not null".
\<close>

type_synonym VkHandle = nat

definition VK_NULL_HANDLE :: VkHandle where
  "VK_NULL_HANDLE = 0"

definition valid :: "VkHandle \<Rightarrow> bool" where
  "valid h = (h \<noteq> VK_NULL_HANDLE)"

datatype VkResult =
    VK_SUCCESS
  | VK_NOT_READY
  | VK_TIMEOUT
  | VK_SUBOPTIMAL_KHR
  | VK_ERROR_OUT_OF_DATE_KHR
  | VK_ERROR_DEVICE_LOST
  | VK_ERROR_OUT_OF_HOST_MEMORY
  | VK_ERROR_OUT_OF_DEVICE_MEMORY

text \<open>\<open>angle::Result\<close>.\<close>

datatype Result = Continue | Stop

datatype ProtectionType = Unprotected | Protected | InvalidEnum

datatype ContextPriority = Low | Medium | High

text \<open>
  A \<open>Serial\<close> is a 64-bit counter; zero is "never submitted" and the largest value is
  \<open>Serial::Infinite()\<close>. A \<open>QueueSerial\<close> is an index with a serial; it is valid when its
  serial is not zero.
\<close>

type_synonym Serial = "64 word"

definition kZeroSerial :: Serial where
  "kZeroSerial = 0"

definition Serial_Infinite :: Serial where
  "Serial_Infinite = - 1"

record QueueSerial =
  qsIndex :: nat
  qsSerial :: Serial

definition QueueSerial_valid :: "QueueSerial \<Rightarrow> bool" where
  "QueueSerial_valid q = (qsSerial q \<noteq> kZeroSerial)"

definition QueueSerial_default :: QueueSerial where
  "QueueSerial_default = \<lparr>qsIndex = 0, qsSerial = kZeroSerial\<rparr>"

text \<open>
  A \<open>ResourceUse\<close> is the set of queue serials that still reference a resource, kept as
  a list.
\<close>

type_synonym ResourceUse = "QueueSerial list"

text \<open>
  \<open>RecyclableFence\<close>: the fence handle and whether the recycler pointer is set. A
  \<open>SharedFence\<close> is a shared-ownership pointer to one; the batch is its only lasting
  owner (the other copies are the locals of \<open>waitFenceUnlocked\<close>), so a null
  \<open>SharedFence\<close> is \<open>None\<close> and resetting a non-null one releases the last reference.
\<close>

record RecyclableFence =
  rfFence :: VkHandle
  rfRecycler :: bool

record CommandBatch =
  mQueueSerial :: QueueSerial
  mProtectionType :: ProtectionType
  mPrimaryCommands :: VkHandle
  mCommandPoolAccess :: bool
  mSecondaryCommands :: "nat list"
  mFence :: "RecyclableFence option"
  mExternalFence :: "VkHandle option"

record CommandsState =
  primaryCommands :: VkHandle
  secondaryCommands :: "nat list"
  waitSemaphores :: "VkHandle list"
  waitSemaphoreStageMasks :: "nat list"

record Error =
  errorCode :: VkResult
  errFile :: string
  errFunction :: string
  errLine :: nat

record SwapchainStatus =
  isPending :: bool
  lastPresentResult :: VkResult

text \<open>
  A \<open>VkPresentInfoKHR\<close> as \<open>copyPresentInfo\<close> reads it: the structure type (zero
  in a zero-initialised info), the number of swapchains with the first swapchain and the
  first image index, the number of wait semaphores with the first of them, whether
  \<open>pResults\<close> is set, and the chain of extension structures behind \<open>pNext\<close>. Of the
  chain the record has what the loop of \<open>copyPresentInfo\<close> tells apart: the rectangles
  of the first region of a present-regions structure, the swapchain count and the first
  fence of a present-fence structure, the swapchain count and the first mode of a
  present-mode structure (the task has one member for each of the three, so each occurs at
  most once), and the type of a structure of another kind if the chain has one.
\<close>

record VkPresentInfoKHR =
  presentSType :: nat
  swapchainCount :: nat
  swapchain :: VkHandle
  imageIndex :: nat
  waitSemaphoreCount :: nat
  presentWaitSemaphore :: VkHandle
  hasResults :: bool
  presentRegions :: "nat list option"
  presentFenceInfo :: "(nat \<times> VkHandle) option"
  presentModeInfo :: "(nat \<times> nat) option"
  otherStructure :: "nat option"

text \<open>
  The task variant. The class keeps one field for every payload and a tag; each
  \<open>init...\<close> function sets the tag and the fields its handler reads, so every tag
  carries exactly those fields here.
\<close>

datatype CommandProcessorTask =
    Invalid
  | FlushWaitSemaphores ProtectionType ContextPriority "VkHandle list" "nat list"
  | ProcessOutsideRenderPassCommands ProtectionType ContextPriority nat
  | ProcessRenderPassCommands ProtectionType ContextPriority nat VkHandle VkHandle
  | FlushAndQueueSubmit VkHandle "VkHandle option" ProtectionType ContextPriority QueueSerial
  | OneOffQueueSubmit VkHandle ProtectionType ContextPriority VkHandle nat QueueSerial
  | Present ContextPriority VkPresentInfoKHR nat

text \<open>
  What \<open>vkQueueSubmit\<close> is given: \<open>sType\<close> is either zero (the zero-initialised
  \<open>VkSubmitInfo\<close>) or \<open>VK_STRUCTURE_TYPE_SUBMIT_INFO\<close>.
\<close>

record VkSubmitInfo =
  sTypeIsSubmitInfo :: bool
  protectedSubmit :: bool
  commandBuffers :: "VkHandle list"
  submitWaitSemaphores :: "VkHandle list"
  submitWaitDstStageMask :: "nat list"
  signalSemaphores :: "VkHandle list"

definition VkSubmitInfo_zero :: VkSubmitInfo where
  "VkSubmitInfo_zero =
     \<lparr>sTypeIsSubmitInfo = False, protectedSubmit = False, commandBuffers = [],
      submitWaitSemaphores = [], submitWaitDstStageMask = [], signalSemaphores = []\<rparr>"

subsection \<open>Effects: locks, device calls, stores seen by other threads\<close>

datatype Mutex =
    QueueSubmitMutex
  | CmdCompleteMutex
  | CmdReleaseMutex
  | CmdPoolMutex
  | FenceRecyclerMutex
  | ErrorMutex
  | TaskEnqueueMutex
  | TaskDequeueMutex

text \<open>
  Every call that leaves the subsystem, every lock operation and every store that another
  thread can observe is appended to the state's event list, in program order.
\<close>

datatype event =
    Lock Mutex
  | Unlock Mutex
  | CallCreateFence
  | CallResetFence VkHandle
  | CallDestroyFence VkHandle
  | CallWaitForFence VkHandle "64 word"
  | CallGetFenceStatus VkHandle
  | CallEndCommandBuffer VkHandle
  | CallQueueSubmit ContextPriority VkSubmitInfo VkHandle
  | CallExportFd VkHandle
  | CallQueuePresent ContextPriority VkPresentInfoKHR
  | CallQueueWaitIdle ContextPriority
  | CallDestroyCommandPool ProtectionType
  | CallRequestAsyncCleanup
  | CallCleanupGarbage
  | CallDestroyPrimary VkHandle
  | CallCollectPrimary ProtectionType VkHandle
  | CallAllocatePrimary ProtectionType
  | CallFlushToPrimary nat VkHandle
  | CallRecycleHelper nat
  | ReleaseSecondaryCommandBuffers "nat list"
  | ContextHandleError Error
  | PushInFlight QueueSerial
  | StoreLastSubmitted QueueSerial
  | StoreLastCompleted QueueSerial
  | StoreLastPresentResult nat VkResult
  | StoreIsPending nat bool

record state =
  mInFlightCommands :: "CommandBatch list"
  mFinishedCommandBatches :: "CommandBatch list"
  mNumAllCommands :: nat
  mLastSubmittedSerials :: "nat \<Rightarrow> Serial"
  mLastCompletedSerials :: "nat \<Rightarrow> Serial"
  mFenceRecycler :: "VkHandle list"
  mCommandsStateMap :: "ContextPriority \<Rightarrow> ProtectionType \<Rightarrow> CommandsState"
  mPrimaryCommandPoolMap :: "ProtectionType \<Rightarrow> VkHandle list"
  mErrors :: "Error list"
  mTaskQueue :: "CommandProcessorTask list"
  mNeedCommandsAndGarbageCleanup :: bool
  swapchainStatus :: "nat \<Rightarrow> SwapchainStatus"
  events :: "event list"

text \<open>
  The device and the renderer are outside the subsystem. Their answers are functions of
  the events so far (so the same fence can be unsignalled now and signalled later) and of
  the call's arguments. The two ring capacities and the task-queue capacity are constants
  of the header, which is not part of the sources at hand, and are taken from here too.
\<close>

record env =
  kInFlightCommandsLimit :: nat
  kMaxFinishedCommandsLimit :: nat
  kMaxCommandProcessorTasksLimit :: nat
  getMaxFenceWaitTimeNs :: "64 word"
  queueHandle :: "ContextPriority \<Rightarrow> VkHandle"
  isAsyncCommandBufferResetAndGarbageCleanupEnabled :: bool
  vkCreateFence :: "event list \<Rightarrow> VkResult \<times> VkHandle"
  vkWaitForFences :: "event list \<Rightarrow> VkHandle \<Rightarrow> 64 word \<Rightarrow> VkResult"
  vkGetFenceStatus :: "event list \<Rightarrow> VkHandle \<Rightarrow> VkResult"
  vkEndCommandBuffer :: "event list \<Rightarrow> VkHandle \<Rightarrow> VkResult"
  vkQueueSubmit :: "event list \<Rightarrow> VkSubmitInfo \<Rightarrow> VkHandle \<Rightarrow> VkResult"
  vkQueuePresentKHR :: "event list \<Rightarrow> VkPresentInfoKHR \<Rightarrow> VkResult"
  poolCollect :: "event list \<Rightarrow> VkHandle \<Rightarrow> VkResult"
  poolAllocate :: "event list \<Rightarrow> ProtectionType \<Rightarrow> VkResult \<times> VkHandle"
  flushToPrimary :: "event list \<Rightarrow> nat \<Rightarrow> VkResult"

definition emit :: "event \<Rightarrow> state \<Rightarrow> state" where
  "emit e s = s\<lparr>events := events s @ [e]\<rparr>"

definition lock :: "Mutex \<Rightarrow> state \<Rightarrow> state" where
  "lock m s = emit (Lock m) s"

definition unlock :: "Mutex \<Rightarrow> state \<Rightarrow> state" where
  "unlock m s = emit (Unlock m) s"

text \<open>
  A function of the source that can fail an \<open>ASSERT\<close>, run into undefined behaviour or
  loop forever returns an \<open>option\<close>: \<open>None\<close> is "does not return normally". A result
  \<open>Some\<close> is what both a debug and a release build compute.
\<close>

section \<open>FenceRecycler\<close>

text \<open>
  Modelled from the spec: the \<open>Recycler<Fence>\<close> behind \<open>FenceRecycler::mRecycler\<close>
  is declared in a header that is not part of the sources at hand. The spec (4.1) calls
  it a free-list of fence handles from which fetch pops and to which recycle returns a
  fence. \<open>Recycler_fetch\<close> requires a non-empty list.
\<close>

definition Recycler_empty :: "VkHandle list \<Rightarrow> bool" where
  "Recycler_empty fl = (fl = [])"

definition Recycler_recycle :: "VkHandle \<Rightarrow> VkHandle list \<Rightarrow> VkHandle list" where
  "Recycler_recycle f fl = fl @ [f]"

definition Recycler_fetch :: "VkHandle list \<Rightarrow> (VkHandle \<times> VkHandle list) option" where
  "Recycler_fetch fl = (if fl = [] then None else Some (last fl, butlast fl))"

text \<open>
  \<open>FenceRecycler::fetch(device, fenceOut)\<close>: the argument is the fence object the caller
  passes in (asserted invalid), the result is that object after the call.
\<close>

definition FenceRecycler_fetch :: "VkHandle \<Rightarrow> state \<Rightarrow> (VkHandle \<times> state) option" where
  "FenceRecycler_fetch fenceOut s =
     (if valid fenceOut then None
      else
        let s1 = lock FenceRecyclerMutex s in
        if \<not> Recycler_empty (mFenceRecycler s1) then
          (case Recycler_fetch (mFenceRecycler s1) of
             None \<Rightarrow> None
           | Some (f, fl) \<Rightarrow>
               Some (f, unlock FenceRecyclerMutex
                          (emit (CallResetFence f) (s1\<lparr>mFenceRecycler := fl\<rparr>))))
        else Some (fenceOut, unlock FenceRecyclerMutex s1))"

definition FenceRecycler_recycle :: "VkHandle \<Rightarrow> state \<Rightarrow> state" where
  "FenceRecycler_recycle fence s =
     (let s1 = lock FenceRecyclerMutex s in
      unlock FenceRecyclerMutex
        (s1\<lparr>mFenceRecycler := Recycler_recycle fence (mFenceRecycler s1)\<rparr>))"

section \<open>Error reporting\<close>

text \<open>
  \<open>Context::handleError\<close> is virtual. Two receivers occur: the command processor itself
  (the worker passes \<open>this\<close> to the command queue) and a context of the caller, whose
  class is outside the subsystem and whose \<open>handleError\<close> is recorded as an event.

  \<open>CommandProcessor::handleError\<close> on \<open>VK_ERROR_DEVICE_LOST\<close> calls
  \<open>CommandProcessor::handleDeviceLost\<close>, which takes \<open>mTaskEnqueueMutex\<close> with a
  \<open>lock_guard\<close> and then calls \<open>waitForAllWorkToBeSubmitted\<close>, whose first statement
  takes the same \<open>std::mutex\<close> again on the same thread. That is undefined behaviour,
  so this path has no normal return.
\<close>

datatype Context = ExternalContext | CommandProcessorContext

definition CommandProcessor_handleDeviceLost :: "state \<Rightarrow> state option" where
  "CommandProcessor_handleDeviceLost s =
     (let s1 = lock TaskEnqueueMutex s;
          s2 = lock TaskEnqueueMutex s1
      in None)"

definition CommandProcessor_handleError ::
  "VkResult \<Rightarrow> string \<Rightarrow> string \<Rightarrow> nat \<Rightarrow> state \<Rightarrow> state option" where
  "CommandProcessor_handleError code file func ln s =
     (if code = VK_SUCCESS then None
      else
        (case (if code = VK_ERROR_DEVICE_LOST then CommandProcessor_handleDeviceLost s
               else Some s) of
           None \<Rightarrow> None
         | Some s1 \<Rightarrow>
             let s2 = lock ErrorMutex s1;
                 error = \<lparr>errorCode = code, errFile = file, errFunction = func, errLine = ln\<rparr>
             in Some (unlock ErrorMutex (s2\<lparr>mErrors := mErrors s2 @ [error]\<rparr>))))"

definition Context_handleError ::
  "Context \<Rightarrow> VkResult \<Rightarrow> string \<Rightarrow> string \<Rightarrow> nat \<Rightarrow> state \<Rightarrow> state option" where
  "Context_handleError ctx code file func ln s =
     (case ctx of
        ExternalContext \<Rightarrow>
          Some (emit (ContextHandleError
                        \<lparr>errorCode = code, errFile = file, errFunction = func, errLine = ln\<rparr>) s)
      | CommandProcessorContext \<Rightarrow> CommandProcessor_handleError code file func ln s)"

definition thisFile :: string where
  "thisFile = ''CommandProcessor.cpp''"

text \<open>
  \<open>ANGLE_VK_TRY(context, command)\<close>: a result other than \<open>VK_SUCCESS\<close> is handed to the
  context's \<open>handleError\<close> and the enclosing function returns \<open>Stop\<close>. The macro's
  definition is in a header outside the sources at hand; this is its use in this file.
\<close>

definition ANGLE_VK_TRY ::
  "Context \<Rightarrow> string \<Rightarrow> nat \<Rightarrow> VkResult \<Rightarrow> state \<Rightarrow> (Result \<times> state) option" where
  "ANGLE_VK_TRY ctx func ln r s =
     (if r = VK_SUCCESS then Some (Continue, s)
      else map_option (\<lambda>s1. (Stop, s1)) (Context_handleError ctx r thisFile func ln s))"

text \<open>A \<open>lock_guard\<close>: the mutex is released on every return of the guarded scope.\<close>

definition with_lock ::
  "Mutex \<Rightarrow> (state \<Rightarrow> ('a \<times> state) option) \<Rightarrow> state \<Rightarrow> ('a \<times> state) option" where
  "with_lock m body s =
     (case body (lock m s) of
        None \<Rightarrow> None
      | Some (r, s1) \<Rightarrow> Some (r, unlock m s1))"

section \<open>RecyclableFence and SharedFence\<close>

definition RecyclableFence_new :: RecyclableFence where
  "RecyclableFence_new = \<lparr>rfFence = VK_NULL_HANDLE, rfRecycler = False\<rparr>"

definition RecyclableFence_init ::
  "env \<Rightarrow> RecyclableFence \<Rightarrow> state \<Rightarrow> (VkResult \<times> RecyclableFence \<times> state) option" where
  "RecyclableFence_init E rf s =
     (if valid (rfFence rf) \<or> rfRecycler rf then None
      else
        (case FenceRecycler_fetch (rfFence rf) s of
           None \<Rightarrow> None
         | Some (f, s1) \<Rightarrow>
             if \<not> valid f then
               (let (result, h) = vkCreateFence E (events s1);
                    s2 = emit CallCreateFence s1
                in if result \<noteq> VK_SUCCESS then Some (result, rf\<lparr>rfFence := f\<rparr>, s2)
                   else if \<not> valid h then None
                   else Some (VK_SUCCESS, \<lparr>rfFence = h, rfRecycler = True\<rparr>, s2))
             else Some (VK_SUCCESS, \<lparr>rfFence = f, rfRecycler = True\<rparr>, s1)))"

definition RecyclableFence_destroy :: "RecyclableFence \<Rightarrow> state \<Rightarrow> state" where
  "RecyclableFence_destroy rf s =
     (if valid (rfFence rf) then
        (if rfRecycler rf then FenceRecycler_recycle (rfFence rf) s
         else emit (CallDestroyFence (rfFence rf)) s)
      else s)"

definition RecyclableFence_detachRecycler :: "RecyclableFence \<Rightarrow> RecyclableFence" where
  "RecyclableFence_detachRecycler rf = rf\<lparr>rfRecycler := False\<rparr>"

text \<open>
  Modelled from the spec: \<open>SharedFence\<close> is declared outside the sources at hand. Spec
  4.1: the last releaser, if still attached to a recycler, returns the fence, otherwise
  destroys it. \<open>SharedFence_reset\<close> is \<open>reset()\<close> on the only lasting reference.
\<close>

definition SharedFence_reset :: "RecyclableFence option \<Rightarrow> state \<Rightarrow> state" where
  "SharedFence_reset f s = (case f of None \<Rightarrow> s | Some rf \<Rightarrow> RecyclableFence_destroy rf s)"

section \<open>CommandPoolAccess: primary buffers of a batch\<close>

definition CommandPoolAccess_destroyPrimaryCommandBuffer ::
  "VkHandle \<Rightarrow> state \<Rightarrow> (VkHandle \<times> state) option" where
  "CommandPoolAccess_destroyPrimaryCommandBuffer primary s =
     (if \<not> valid primary then None
      else
        let s1 = lock CmdPoolMutex s;
            s2 = emit (CallDestroyPrimary primary) s1
        in Some (VK_NULL_HANDLE, unlock CmdPoolMutex s2))"

text \<open>
  Modelled from the spec: \<open>PersistentCommandPool::collect\<close> is outside the sources at
  hand. Spec 4.2: CollectPrimary returns a completed primary buffer to its pool for reset
  and reuse. The reset can fail; then the buffer stays with the batch.
\<close>

definition PersistentCommandPool_collect ::
  "env \<Rightarrow> Context \<Rightarrow> ProtectionType \<Rightarrow> VkHandle \<Rightarrow> state
     \<Rightarrow> (Result \<times> VkHandle \<times> state) option" where
  "PersistentCommandPool_collect E ctx pt primary s =
     (let r = poolCollect E (events s) primary;
          s1 = emit (CallCollectPrimary pt primary) s
      in case ANGLE_VK_TRY ctx ''collect'' 0 r s1 of
           None \<Rightarrow> None
         | Some (Stop, s2) \<Rightarrow> Some (Stop, primary, s2)
         | Some (Continue, s2) \<Rightarrow>
             Some (Continue, VK_NULL_HANDLE,
                   s2\<lparr>mPrimaryCommandPoolMap :=
                        (mPrimaryCommandPoolMap s2)(pt := mPrimaryCommandPoolMap s2 pt @ [primary])\<rparr>))"

definition CommandPoolAccess_collectPrimaryCommandBuffer ::
  "env \<Rightarrow> Context \<Rightarrow> ProtectionType \<Rightarrow> VkHandle \<Rightarrow> state
     \<Rightarrow> (Result \<times> VkHandle \<times> state) option" where
  "CommandPoolAccess_collectPrimaryCommandBuffer E ctx pt primary s =
     (if \<not> valid primary then None
      else
        (case PersistentCommandPool_collect E ctx pt primary (lock CmdPoolMutex s) of
           None \<Rightarrow> None
         | Some (r, p, s1) \<Rightarrow> Some (r, p, unlock CmdPoolMutex s1)))"

section \<open>CommandBatch\<close>

text \<open>
  \<open>SecondaryCommandBufferCollector::releaseCommandBuffers\<close> hands the collected
  buffers back and leaves the collector empty; on an empty collector nothing happens.
\<close>

definition releaseCommandBuffers :: "nat list \<Rightarrow> state \<Rightarrow> state" where
  "releaseCommandBuffers l s = (if l = [] then s else emit (ReleaseSecondaryCommandBuffers l) s)"

definition CommandBatch_new :: CommandBatch where
  "CommandBatch_new =
     \<lparr>mQueueSerial = QueueSerial_default, mProtectionType = InvalidEnum,
      mPrimaryCommands = VK_NULL_HANDLE, mCommandPoolAccess = False,
      mSecondaryCommands = [], mFence = None, mExternalFence = None\<rparr>"

text \<open>Move assignment swaps every member: the pair is (\<open>*this\<close>, \<open>other\<close>) afterwards.\<close>

definition CommandBatch_move_assign ::
  "CommandBatch \<Rightarrow> CommandBatch \<Rightarrow> CommandBatch \<times> CommandBatch" where
  "CommandBatch_move_assign this other = (other, this)"

definition hasFence :: "CommandBatch \<Rightarrow> bool option" where
  "hasFence b =
     (if \<not> (mExternalFence b = None \<or> mFence b = None) then None
      else if \<not> (case mFence b of None \<Rightarrow> True | Some rf \<Rightarrow> valid (rfFence rf)) then None
      else Some (mFence b \<noteq> None \<or> mExternalFence b \<noteq> None))"

definition CommandBatch_destroy :: "CommandBatch \<Rightarrow> state \<Rightarrow> (CommandBatch \<times> state) option" where
  "CommandBatch_destroy b s =
     (case (if valid (mPrimaryCommands b) then
              (if \<not> mCommandPoolAccess b then None
               else CommandPoolAccess_destroyPrimaryCommandBuffer (mPrimaryCommands b) s)
            else Some (mPrimaryCommands b, s)) of
        None \<Rightarrow> None
      | Some (p, s1) \<Rightarrow>
          let s2 = releaseCommandBuffers (mSecondaryCommands b) s1;
              s3 = (case mFence b of
                      None \<Rightarrow> s2
                    | Some rf \<Rightarrow> SharedFence_reset (Some (RecyclableFence_detachRecycler rf)) s2)
          in Some (b\<lparr>mPrimaryCommands := p, mSecondaryCommands := [],
                     mFence := None, mExternalFence := None\<rparr>, s3))"

definition CommandBatch_release ::
  "env \<Rightarrow> Context \<Rightarrow> CommandBatch \<Rightarrow> state \<Rightarrow> (Result \<times> CommandBatch \<times> state) option" where
  "CommandBatch_release E ctx b s =
     (case (if valid (mPrimaryCommands b) then
              (if \<not> mCommandPoolAccess b then None
               else CommandPoolAccess_collectPrimaryCommandBuffer E ctx (mProtectionType b)
                      (mPrimaryCommands b) s)
            else Some (Continue, mPrimaryCommands b, s)) of
        None \<Rightarrow> None
      | Some (Stop, p, s1) \<Rightarrow> Some (Stop, b\<lparr>mPrimaryCommands := p\<rparr>, s1)
      | Some (Continue, p, s1) \<Rightarrow>
          let s2 = releaseCommandBuffers (mSecondaryCommands b) s1;
              s3 = SharedFence_reset (mFence b) s2
          in Some (Continue,
                   b\<lparr>mPrimaryCommands := p, mSecondaryCommands := [],
                     mFence := None, mExternalFence := None\<rparr>, s3))"

definition CommandBatch_setQueueSerial :: "QueueSerial \<Rightarrow> CommandBatch \<Rightarrow> CommandBatch option" where
  "CommandBatch_setQueueSerial serial b =
     (if \<not> QueueSerial_valid serial then None
      else if QueueSerial_valid (mQueueSerial b) then None
      else Some (b\<lparr>mQueueSerial := serial\<rparr>))"

definition CommandBatch_setProtectionType ::
  "ProtectionType \<Rightarrow> CommandBatch \<Rightarrow> CommandBatch option" where
  "CommandBatch_setProtectionType pt b =
     (if pt = InvalidEnum then None
      else if mProtectionType b \<noteq> InvalidEnum then None
      else Some (b\<lparr>mProtectionType := pt\<rparr>))"

definition CommandBatch_setPrimaryCommands ::
  "VkHandle \<Rightarrow> bool \<Rightarrow> CommandBatch \<Rightarrow> CommandBatch option" where
  "CommandBatch_setPrimaryCommands primary access b =
     (if valid primary \<and> \<not> access then None
      else if valid (mPrimaryCommands b) then None
      else if mCommandPoolAccess b then None
      else Some (b\<lparr>mPrimaryCommands := primary, mCommandPoolAccess := access\<rparr>))"

definition CommandBatch_setSecondaryCommands :: "nat list \<Rightarrow> CommandBatch \<Rightarrow> CommandBatch option" where
  "CommandBatch_setSecondaryCommands secondary b =
     (if mSecondaryCommands b \<noteq> [] then None
      else Some (b\<lparr>mSecondaryCommands := secondary\<rparr>))"

definition CommandBatch_initFence ::
  "env \<Rightarrow> CommandBatch \<Rightarrow> state \<Rightarrow> (VkResult \<times> CommandBatch \<times> state) option" where
  "CommandBatch_initFence E b s =
     (case hasFence b of
        Some False \<Rightarrow>
          (case RecyclableFence_init E RecyclableFence_new s of
             None \<Rightarrow> None
           | Some (result, fence, s1) \<Rightarrow>
               if result = VK_SUCCESS then
                 (if \<not> valid (rfFence fence) then None
                  else Some (result, b\<lparr>mFence := Some fence\<rparr>, s1))
               else Some (result, b, s1))
      | _ \<Rightarrow> None)"

definition CommandBatch_setExternalFence ::
  "VkHandle option \<Rightarrow> CommandBatch \<Rightarrow> CommandBatch option" where
  "CommandBatch_setExternalFence externalFence b =
     (case hasFence b of
        Some False \<Rightarrow> Some (b\<lparr>mExternalFence := externalFence\<rparr>)
      | _ \<Rightarrow> None)"

definition CommandBatch_getQueueSerial :: "CommandBatch \<Rightarrow> QueueSerial option" where
  "CommandBatch_getQueueSerial b =
     (if QueueSerial_valid (mQueueSerial b) then Some (mQueueSerial b) else None)"

definition CommandBatch_getFenceHandle :: "CommandBatch \<Rightarrow> VkHandle option" where
  "CommandBatch_getFenceHandle b =
     (case hasFence b of
        Some True \<Rightarrow>
          (case mFence b of Some rf \<Rightarrow> Some (rfFence rf) | None \<Rightarrow> mExternalFence b)
      | _ \<Rightarrow> None)"

definition CommandBatch_getFenceStatus ::
  "env \<Rightarrow> CommandBatch \<Rightarrow> state \<Rightarrow> (VkResult \<times> state) option" where
  "CommandBatch_getFenceStatus E b s =
     (case CommandBatch_getFenceHandle b of
        None \<Rightarrow> None
      | Some h \<Rightarrow> Some (vkGetFenceStatus E (events s) h, emit (CallGetFenceStatus h) s))"

definition CommandBatch_waitFence ::
  "env \<Rightarrow> CommandBatch \<Rightarrow> 64 word \<Rightarrow> state \<Rightarrow> (VkResult \<times> state) option" where
  "CommandBatch_waitFence E b timeout s =
     (case CommandBatch_getFenceHandle b of
        None \<Rightarrow> None
      | Some h \<Rightarrow>
          Some (vkWaitForFences E (events s) h timeout, emit (CallWaitForFence h timeout) s))"

section \<open>CommandQueue: rings and serial trackers\<close>

text \<open>
  Modelled from the spec: the ring buffer class (\<open>FixedQueue\<close>) behind
  \<open>mInFlightCommands\<close> and \<open>mFinishedCommandBatches\<close> is outside the sources at hand.
  Spec 3: bounded FIFO ring buffers. A ring is the list of its elements, oldest first,
  with the capacity its constructor was given; \<open>push\<close> requires room and \<open>front\<close> and
  \<open>pop\<close> require an element.
\<close>

definition FixedQueue_full :: "nat \<Rightarrow> 'a list \<Rightarrow> bool" where
  "FixedQueue_full cap q = (length q = cap)"

definition FixedQueue_push :: "nat \<Rightarrow> 'a \<Rightarrow> 'a list \<Rightarrow> 'a list option" where
  "FixedQueue_push cap x q = (if length q < cap then Some (q @ [x]) else None)"

definition FixedQueue_front :: "'a list \<Rightarrow> 'a option" where
  "FixedQueue_front q = (case q of [] \<Rightarrow> None | x # _ \<Rightarrow> Some x)"

definition FixedQueue_back :: "'a list \<Rightarrow> 'a option" where
  "FixedQueue_back q = (if q = [] then None else Some (last q))"

definition FixedQueue_pop :: "'a list \<Rightarrow> 'a list option" where
  "FixedQueue_pop q = (case q of [] \<Rightarrow> None | _ # rest \<Rightarrow> Some rest)"

text \<open>
  Modelled from the spec: the atomic serial arrays and the comparisons of a
  \<open>ResourceUse\<close> with them are declared outside the sources at hand. Spec 3: two
  index-addressable arrays of serials; "submitted" means each component serial is at most
  last-submitted for its index, "finished" the same with last-completed.
\<close>

definition setLastSubmitted :: "QueueSerial \<Rightarrow> state \<Rightarrow> state" where
  "setLastSubmitted q s =
     emit (StoreLastSubmitted q)
       (s\<lparr>mLastSubmittedSerials := (mLastSubmittedSerials s)(qsIndex q := qsSerial q)\<rparr>)"

definition setLastCompleted :: "QueueSerial \<Rightarrow> state \<Rightarrow> state" where
  "setLastCompleted q s =
     emit (StoreLastCompleted q)
       (s\<lparr>mLastCompletedSerials := (mLastCompletedSerials s)(qsIndex q := qsSerial q)\<rparr>)"

definition hasResourceUseSubmitted :: "ResourceUse \<Rightarrow> state \<Rightarrow> bool" where
  "hasResourceUseSubmitted use s =
     list_all (\<lambda>q. qsSerial q \<le> mLastSubmittedSerials s (qsIndex q)) use"

definition hasResourceUseFinished :: "ResourceUse \<Rightarrow> state \<Rightarrow> bool" where
  "hasResourceUseFinished use s =
     list_all (\<lambda>q. qsSerial q \<le> mLastCompletedSerials s (qsIndex q)) use"

definition pushInFlightBatchLocked :: "env \<Rightarrow> CommandBatch \<Rightarrow> state \<Rightarrow> state option" where
  "pushInFlightBatchLocked E batch s =
     (let s1 = s\<lparr>mNumAllCommands := mNumAllCommands s + 1\<rparr> in
      case FixedQueue_push (kInFlightCommandsLimit E) batch (mInFlightCommands s1) of
        None \<Rightarrow> None
      | Some q \<Rightarrow> Some (emit (PushInFlight (mQueueSerial batch)) (s1\<lparr>mInFlightCommands := q\<rparr>)))"

text \<open>The batch argument of the next two functions is the front of the in-flight ring.\<close>

definition moveInFlightBatchToFinishedQueueLocked :: "env \<Rightarrow> state \<Rightarrow> state option" where
  "moveInFlightBatchToFinishedQueueLocked E s =
     (if FixedQueue_full (kMaxFinishedCommandsLimit E) (mFinishedCommandBatches s) then None
      else
        (case FixedQueue_front (mInFlightCommands s) of
           None \<Rightarrow> None
         | Some batch \<Rightarrow>
             (case FixedQueue_push (kMaxFinishedCommandsLimit E) batch
                     (mFinishedCommandBatches s) of
                None \<Rightarrow> None
              | Some fq \<Rightarrow>
                  (case FixedQueue_pop (mInFlightCommands s) of
                     None \<Rightarrow> None
                   | Some iq \<Rightarrow>
                       Some (s\<lparr>mFinishedCommandBatches := fq, mInFlightCommands := iq\<rparr>)))))"

definition onCommandBatchFinishedLocked :: "env \<Rightarrow> state \<Rightarrow> state option" where
  "onCommandBatchFinishedLocked E s =
     (case FixedQueue_front (mInFlightCommands s) of
        None \<Rightarrow> None
      | Some batch \<Rightarrow>
          (case CommandBatch_getQueueSerial batch of
             None \<Rightarrow> None
           | Some q \<Rightarrow> moveInFlightBatchToFinishedQueueLocked E (setLastCompleted q s)))"

definition popFinishedBatchLocked :: "state \<Rightarrow> state option" where
  "popFinishedBatchLocked s =
     (case FixedQueue_pop (mFinishedCommandBatches s) of
        None \<Rightarrow> None
      | Some q \<Rightarrow>
          if \<not> mNumAllCommands s > 0 then None
          else Some (s\<lparr>mFinishedCommandBatches := q, mNumAllCommands := mNumAllCommands s - 1\<rparr>))"

definition popInFlightBatchLocked :: "state \<Rightarrow> state option" where
  "popInFlightBatchLocked s =
     (case FixedQueue_pop (mInFlightCommands s) of
        None \<Rightarrow> None
      | Some q \<Rightarrow>
          if \<not> mNumAllCommands s > 0 then None
          else Some (s\<lparr>mInFlightCommands := q, mNumAllCommands := mNumAllCommands s - 1\<rparr>))"

definition checkOneCommandBatchLocked ::
  "env \<Rightarrow> Context \<Rightarrow> state \<Rightarrow> (Result \<times> bool \<times> state) option" where
  "checkOneCommandBatchLocked E ctx s =
     (case FixedQueue_front (mInFlightCommands s) of
        None \<Rightarrow> None
      | Some batch \<Rightarrow>
          (case hasFence batch of
             None \<Rightarrow> None
           | Some True \<Rightarrow>
               (case CommandBatch_getFenceStatus E batch s of
                  None \<Rightarrow> None
                | Some (status, s1) \<Rightarrow>
                    if status = VK_NOT_READY then Some (Continue, False, s1)
                    else
                      (case ANGLE_VK_TRY ctx ''checkOneCommandBatchLocked'' 1711 status s1 of
                         None \<Rightarrow> None
                       | Some (Stop, s2) \<Rightarrow> Some (Stop, False, s2)
                       | Some (Continue, s2) \<Rightarrow>
                           map_option (\<lambda>s3. (Continue, True, s3))
                             (onCommandBatchFinishedLocked E s2)))
           | Some False \<Rightarrow>
               map_option (\<lambda>s3. (Continue, True, s3)) (onCommandBatchFinishedLocked E s)))"

definition finishOneCommandBatchLocked ::
  "env \<Rightarrow> Context \<Rightarrow> 64 word \<Rightarrow> state \<Rightarrow> (Result \<times> state) option" where
  "finishOneCommandBatchLocked E ctx timeout s =
     (case FixedQueue_front (mInFlightCommands s) of
        None \<Rightarrow> None
      | Some batch \<Rightarrow>
          (case hasFence batch of
             None \<Rightarrow> None
           | Some True \<Rightarrow>
               (case CommandBatch_waitFence E batch timeout s of
                  None \<Rightarrow> None
                | Some (status, s1) \<Rightarrow>
                    (case ANGLE_VK_TRY ctx ''finishOneCommandBatchLocked'' 1728 status s1 of
                       None \<Rightarrow> None
                     | Some (Stop, s2) \<Rightarrow> Some (Stop, s2)
                     | Some (Continue, s2) \<Rightarrow>
                         map_option (\<lambda>s3. (Continue, s3)) (onCommandBatchFinishedLocked E s2)))
           | Some False \<Rightarrow>
               map_option (\<lambda>s3. (Continue, s3)) (onCommandBatchFinishedLocked E s)))"

text \<open>
  \<open>batch.getQueueSerial() <= mLastCompletedSerials\<close>, the assertion of
  \<open>releaseFinishedCommandsLocked\<close>.
\<close>

definition serialCompleted :: "QueueSerial \<Rightarrow> state \<Rightarrow> bool" where
  "serialCompleted q s = (qsSerial q \<le> mLastCompletedSerials s (qsIndex q))"

text \<open>
  One round of the loop of \<open>releaseFinishedCommandsLocked\<close>, for a non-empty finished
  ring: the front batch is released in place and popped. After a failed release the batch
  stays at the front.
\<close>

definition releaseFinishedCommandsLocked_body ::
  "env \<Rightarrow> Context \<Rightarrow> state \<Rightarrow> (Result \<times> state) option" where
  "releaseFinishedCommandsLocked_body E ctx s =
     (case mFinishedCommandBatches s of
        [] \<Rightarrow> None
      | batch # rest \<Rightarrow>
          (case CommandBatch_getQueueSerial batch of
             None \<Rightarrow> None
           | Some q \<Rightarrow>
               if \<not> serialCompleted q s then None
               else
                 (case CommandBatch_release E ctx batch s of
                    None \<Rightarrow> None
                  | Some (r, batch1, s1) \<Rightarrow>
                      let s2 = s1\<lparr>mFinishedCommandBatches :=
                                    batch1 # tl (mFinishedCommandBatches s1)\<rparr>
                      in if r = Stop then Some (Stop, s2)
                         else map_option (\<lambda>s3. (Continue, s3)) (popFinishedBatchLocked s2))))"

section \<open>What the batch operations leave alone\<close>

text \<open>
  The rings, the batch counter and the serial trackers are written by the CommandQueue
  functions only; fences, pools, locks and error reports do not touch them, nor the task
  queue, the recorded commands and the swapchain statuses.
\<close>

definition ringsKept :: "state \<Rightarrow> state \<Rightarrow> bool" where
  "ringsKept s s1 =
     (mInFlightCommands s1 = mInFlightCommands s \<and>
      mFinishedCommandBatches s1 = mFinishedCommandBatches s \<and>
      mNumAllCommands s1 = mNumAllCommands s \<and>
      mLastSubmittedSerials s1 = mLastSubmittedSerials s \<and>
      mLastCompletedSerials s1 = mLastCompletedSerials s)"

definition frame :: "state \<Rightarrow> state \<Rightarrow> bool" where
  "frame s s1 =
     (ringsKept s s1 \<and> mTaskQueue s1 = mTaskQueue s \<and>
      mCommandsStateMap s1 = mCommandsStateMap s \<and> swapchainStatus s1 = swapchainStatus s)"

lemma ringsKept_refl: "ringsKept s s" by (simp add: ringsKept_def)
lemma ringsKept_trans [trans]: "ringsKept s s1 \<Longrightarrow> ringsKept s1 s2 \<Longrightarrow> ringsKept s s2"
  by (simp add: ringsKept_def)
lemma ringsKept_emit: "ringsKept s (emit e s)" by (simp add: ringsKept_def emit_def)
lemma ringsKept_lock: "ringsKept s (lock m s)" by (simp add: lock_def ringsKept_emit)
lemma ringsKept_unlock: "ringsKept s (unlock m s)" by (simp add: unlock_def ringsKept_emit)

lemma frame_refl: "frame s s" by (simp add: frame_def ringsKept_def)
lemma frame_trans [trans]: "frame s s1 \<Longrightarrow> frame s1 s2 \<Longrightarrow> frame s s2" by (simp add: frame_def ringsKept_def)
lemma frame_emit: "frame s (emit e s)" by (simp add: frame_def ringsKept_def emit_def)
lemma frame_lock: "frame s (lock m s)" by (simp add: lock_def frame_emit)
lemma frame_unlock: "frame s (unlock m s)" by (simp add: unlock_def frame_emit)

lemma frame_Context_handleError:
  "Context_handleError ctx code file func ln s = Some s1 \<Longrightarrow> frame s s1"
  by (auto simp: Context_handleError_def CommandProcessor_handleError_def
        CommandProcessor_handleDeviceLost_def frame_def ringsKept_def emit_def lock_def unlock_def Let_def
      split: Context.splits if_splits option.splits)

lemma frame_ANGLE_VK_TRY:
  "ANGLE_VK_TRY ctx func ln r s = Some (res, s1) \<Longrightarrow> frame s s1"
  by (auto simp: ANGLE_VK_TRY_def frame_refl dest: frame_Context_handleError split: if_splits)

lemma frame_FenceRecycler_recycle: "frame s (FenceRecycler_recycle f s)"
  by (simp add: FenceRecycler_recycle_def frame_def ringsKept_def lock_def unlock_def emit_def Let_def)

lemma frame_SharedFence_reset: "frame s (SharedFence_reset f s)"
  by (auto simp: SharedFence_reset_def RecyclableFence_destroy_def frame_refl frame_emit
        frame_FenceRecycler_recycle split: option.splits)

lemma frame_releaseCommandBuffers: "frame s (releaseCommandBuffers l s)"
  by (simp add: releaseCommandBuffers_def frame_refl frame_emit)

lemma frame_collect:
  "CommandPoolAccess_collectPrimaryCommandBuffer E ctx pt p s = Some (r, p1, s1) \<Longrightarrow> frame s s1"
  apply (auto simp: CommandPoolAccess_collectPrimaryCommandBuffer_def
        PersistentCommandPool_collect_def Let_def
      split: if_splits option.splits Result.splits prod.splits dest!: frame_ANGLE_VK_TRY)
   apply (auto simp: frame_def ringsKept_def lock_def unlock_def emit_def)
  done

lemma frame_CommandBatch_release:
  "CommandBatch_release E ctx b s = Some (r, b1, s1) \<Longrightarrow> frame s s1"
  apply (auto simp: CommandBatch_release_def Let_def
      split: if_splits option.splits Result.splits prod.splits dest!: frame_collect)
  apply (meson frame_trans frame_SharedFence_reset frame_releaseCommandBuffers frame_refl)+
  done

lemma frame_destroyPrimary:
  "CommandPoolAccess_destroyPrimaryCommandBuffer p s = Some (p1, s1) \<Longrightarrow> frame s s1"
  by (auto simp: CommandPoolAccess_destroyPrimaryCommandBuffer_def Let_def frame_def ringsKept_def lock_def
      unlock_def emit_def split: if_splits)

lemma frame_CommandBatch_destroy:
  "CommandBatch_destroy b s = Some (b1, s1) \<Longrightarrow> frame s s1"
  apply (auto simp: CommandBatch_destroy_def Let_def
      split: if_splits option.splits prod.splits dest!: frame_destroyPrimary)
  apply (meson frame_trans frame_SharedFence_reset frame_releaseCommandBuffers frame_refl)+
  done

lemma frame_waitFence:
  "CommandBatch_waitFence E b t s = Some (r, s1) \<Longrightarrow> frame s s1"
  by (auto simp: CommandBatch_waitFence_def frame_emit split: option.splits)

lemma frame_getFenceStatus:
  "CommandBatch_getFenceStatus E b s = Some (r, s1) \<Longrightarrow> frame s s1"
  by (auto simp: CommandBatch_getFenceStatus_def frame_emit split: option.splits)

section \<open>CommandQueue: reclaiming, device loss, destroy\<close>

function releaseFinishedCommandsLocked ::
  "env \<Rightarrow> Context \<Rightarrow> state \<Rightarrow> (Result \<times> state) option" where
  "releaseFinishedCommandsLocked E ctx s =
     (if mFinishedCommandBatches s = [] then Some (Continue, s)
      else
        (case releaseFinishedCommandsLocked_body E ctx s of
           None \<Rightarrow> None
         | Some (Stop, s1) \<Rightarrow> Some (Stop, s1)
         | Some (Continue, s1) \<Rightarrow> releaseFinishedCommandsLocked E ctx s1))"
  by pat_completeness auto

lemma releaseFinishedCommandsLocked_body_shrinks:
  "releaseFinishedCommandsLocked_body E ctx s = Some (Continue, s1) \<Longrightarrow>
   mFinishedCommandBatches s1 = tl (mFinishedCommandBatches s) \<and>
   mFinishedCommandBatches s \<noteq> []"
  by (auto simp: releaseFinishedCommandsLocked_body_def popFinishedBatchLocked_def
        FixedQueue_pop_def Let_def frame_def ringsKept_def
      split: list.splits option.splits if_splits prod.splits
      dest!: frame_CommandBatch_release)

termination releaseFinishedCommandsLocked
proof (relation "measure (\<lambda>(E, ctx, s). length (mFinishedCommandBatches s))", goal_cases)
  case 1
  show ?case by simp
next
  case (2 E ctx s x2 x1 s1)
  then have "mFinishedCommandBatches s1 = tl (mFinishedCommandBatches s)"
    using releaseFinishedCommandsLocked_body_shrinks by blast
  with 2 show ?case
    by (cases "mFinishedCommandBatches s") simp_all
qed

text \<open>
  One round of the loop of \<open>CommandQueue::handleDeviceLost\<close>, for a non-empty in-flight
  ring. The assertion on the wait's status admits \<open>VK_SUCCESS\<close> and
  \<open>VK_ERROR_DEVICE_LOST\<close>.
\<close>

definition handleDeviceLost_body :: "env \<Rightarrow> state \<Rightarrow> state option" where
  "handleDeviceLost_body E s =
     (case FixedQueue_front (mInFlightCommands s) of
        None \<Rightarrow> None
      | Some batch \<Rightarrow>
          (case hasFence batch of
             None \<Rightarrow> None
           | Some hf \<Rightarrow>
               (case (if hf then
                        (case CommandBatch_waitFence E batch (getMaxFenceWaitTimeNs E) s of
                           None \<Rightarrow> None
                         | Some (status, s1) \<Rightarrow>
                             if status = VK_SUCCESS \<or> status = VK_ERROR_DEVICE_LOST
                             then Some s1 else None)
                      else Some s) of
                  None \<Rightarrow> None
                | Some s1 \<Rightarrow>
                    (case CommandBatch_getQueueSerial batch of
                       None \<Rightarrow> None
                     | Some q \<Rightarrow>
                         (case CommandBatch_destroy batch (setLastCompleted q s1) of
                            None \<Rightarrow> None
                          | Some (batch1, s3) \<Rightarrow>
                              popInFlightBatchLocked
                                (s3\<lparr>mInFlightCommands :=
                                      batch1 # tl (mInFlightCommands s3)\<rparr>))))))"

lemma handleDeviceLost_body_shrinks:
  "handleDeviceLost_body E s = Some s1 \<Longrightarrow>
   mInFlightCommands s1 = tl (mInFlightCommands s) \<and> mInFlightCommands s \<noteq> []"
  by (auto simp: handleDeviceLost_body_def popInFlightBatchLocked_def FixedQueue_pop_def
        FixedQueue_front_def setLastCompleted_def emit_def frame_def ringsKept_def
      split: list.splits option.splits if_splits prod.splits
      dest!: frame_CommandBatch_destroy frame_waitFence)

function handleDeviceLost_loop :: "env \<Rightarrow> state \<Rightarrow> state option" where
  "handleDeviceLost_loop E s =
     (if mInFlightCommands s = [] then Some s
      else
        (case handleDeviceLost_body E s of
           None \<Rightarrow> None
         | Some s1 \<Rightarrow> handleDeviceLost_loop E s1))"
  by pat_completeness auto

termination handleDeviceLost_loop
proof (relation "measure (\<lambda>(E, s). length (mInFlightCommands s))", goal_cases)
  case 1
  show ?case by simp
next
  case (2 E s s1)
  then have "mInFlightCommands s1 = tl (mInFlightCommands s)"
    using handleDeviceLost_body_shrinks by blast
  with 2 show ?case
    by (cases "mInFlightCommands s") simp_all
qed

declare releaseFinishedCommandsLocked.simps [simp del]

declare handleDeviceLost_loop.simps [simp del]

definition with_lock_void :: "Mutex \<Rightarrow> (state \<Rightarrow> state option) \<Rightarrow> state \<Rightarrow> state option" where
  "with_lock_void m body s = map_option (unlock m) (body (lock m s))"

definition CommandQueue_handleDeviceLost :: "env \<Rightarrow> state \<Rightarrow> state option" where
  "CommandQueue_handleDeviceLost E s =
     with_lock_void QueueSubmitMutex
       (with_lock_void CmdCompleteMutex
          (with_lock_void CmdReleaseMutex (handleDeviceLost_loop E))) s"

text \<open>
  \<open>DeviceQueueMap::destroy\<close>: every non-null queue is waited on, in the order of the
  priority enumeration.
\<close>

definition DeviceQueueMap_destroy :: "env \<Rightarrow> state \<Rightarrow> state" where
  "DeviceQueueMap_destroy E s =
     foldl (\<lambda>s1 p. if queueHandle E p \<noteq> VK_NULL_HANDLE then emit (CallQueueWaitIdle p) s1 else s1)
       s [Low, Medium, High]"

text \<open>
  \<open>CommandPoolAccess::destroy\<close>: every commands state is cleared, its primary buffer
  destroyed and its secondary buffers released; then every pool is destroyed.
\<close>

definition CommandsState_destroy :: "ContextPriority \<Rightarrow> ProtectionType \<Rightarrow> state \<Rightarrow> state" where
  "CommandsState_destroy pr pt s =
     (let st = mCommandsStateMap s pr pt;
          s1 = (if valid (primaryCommands st) then emit (CallDestroyPrimary (primaryCommands st)) s
                else s);
          s2 = releaseCommandBuffers (secondaryCommands st) s1;
          st1 = \<lparr>primaryCommands = VK_NULL_HANDLE, secondaryCommands = [],
                 waitSemaphores = [], waitSemaphoreStageMasks = []\<rparr>
      in s2\<lparr>mCommandsStateMap :=
               (mCommandsStateMap s2)(pr := (mCommandsStateMap s2 pr)(pt := st1))\<rparr>)"

definition PersistentCommandPool_destroy :: "ProtectionType \<Rightarrow> state \<Rightarrow> state" where
  "PersistentCommandPool_destroy pt s =
     emit (CallDestroyCommandPool pt)
       (s\<lparr>mPrimaryCommandPoolMap := (mPrimaryCommandPoolMap s)(pt := [])\<rparr>)"

definition CommandPoolAccess_destroy :: "state \<Rightarrow> state" where
  "CommandPoolAccess_destroy s =
     (let s1 = lock CmdPoolMutex s;
          s2 = foldl (\<lambda>s' (pr, pt). CommandsState_destroy pr pt s') s1
                 [(pr, pt). pr \<leftarrow> [Low, Medium, High], pt \<leftarrow> [Unprotected, Protected]];
          s3 = foldl (\<lambda>s' pt. PersistentCommandPool_destroy pt s') s2 [Unprotected, Protected]
      in unlock CmdPoolMutex s3)"

definition FenceRecycler_destroy :: "state \<Rightarrow> state" where
  "FenceRecycler_destroy s =
     (let s1 = lock FenceRecyclerMutex s;
          s2 = foldl (\<lambda>s' f. emit (CallDestroyFence f) s') s1 (mFenceRecycler s1)
      in unlock FenceRecyclerMutex (s2\<lparr>mFenceRecycler := []\<rparr>))"

definition CommandQueue_destroy_locked :: "env \<Rightarrow> state \<Rightarrow> state option" where
  "CommandQueue_destroy_locked E s =
     (let s1 = DeviceQueueMap_destroy E s;
          s2 = s1\<lparr>mLastCompletedSerials := (\<lambda>_. Serial_Infinite)\<rparr>;
          s3 = CommandPoolAccess_destroy s2;
          s4 = FenceRecycler_destroy s3
      in if mInFlightCommands s4 \<noteq> [] then None
         else if mFinishedCommandBatches s4 \<noteq> [] then None
         else if mNumAllCommands s4 \<noteq> 0 then None
         else Some s4)"

definition CommandQueue_destroy :: "env \<Rightarrow> state \<Rightarrow> state option" where
  "CommandQueue_destroy E s =
     with_lock_void QueueSubmitMutex
       (with_lock_void CmdCompleteMutex
          (with_lock_void CmdReleaseMutex (CommandQueue_destroy_locked E))) s"

section \<open>CommandQueue: submission\<close>

text \<open>The performance counters of the submission functions are left out.\<close>

definition InitializeSubmitInfo ::
  "VkSubmitInfo \<Rightarrow> VkHandle \<Rightarrow> VkHandle list \<Rightarrow> nat list \<Rightarrow> VkHandle \<Rightarrow> VkSubmitInfo option" where
  "InitializeSubmitInfo submitInfo commandBuffer waitSems masks signalSemaphore =
     (if signalSemaphores submitInfo \<noteq> [] then None
      else if length waitSems \<noteq> length masks then None
      else Some (submitInfo
                  \<lparr>sTypeIsSubmitInfo := True,
                   commandBuffers := (if valid commandBuffer then [commandBuffer] else []),
                   submitWaitSemaphores := waitSems,
                   submitWaitDstStageMask := masks,
                   signalSemaphores :=
                     (if signalSemaphore \<noteq> VK_NULL_HANDLE then [signalSemaphore] else [])\<rparr>))"

definition CommandsState_empty :: CommandsState where
  "CommandsState_empty =
     \<lparr>primaryCommands = VK_NULL_HANDLE, secondaryCommands = [],
      waitSemaphores = [], waitSemaphoreStageMasks = []\<rparr>"

text \<open>
  \<open>CommandPoolAccess::getCommandsAndWaitSemaphores\<close>: the result carries the batch and
  the two vectors written through the out-parameters. Everything is moved out of the
  commands state.
\<close>

definition CommandPoolAccess_getCommandsAndWaitSemaphores ::
  "env \<Rightarrow> Context \<Rightarrow> ProtectionType \<Rightarrow> ContextPriority \<Rightarrow> CommandBatch \<Rightarrow> state
     \<Rightarrow> (Result \<times> CommandBatch \<times> VkHandle list \<times> nat list \<times> state) option" where
  "CommandPoolAccess_getCommandsAndWaitSemaphores E ctx pt priority batchOut s =
     (let s1 = lock CmdPoolMutex s;
          st = mCommandsStateMap s1 priority pt
      in if \<not> (valid (primaryCommands st) \<or> secondaryCommands st = []) then None
         else
           (case (if valid (primaryCommands st) then
                    ANGLE_VK_TRY ctx ''getCommandsAndWaitSemaphores'' 1196
                      (vkEndCommandBuffer E (events s1) (primaryCommands st))
                      (emit (CallEndCommandBuffer (primaryCommands st)) s1)
                  else Some (Continue, s1)) of
              None \<Rightarrow> None
            | Some (Stop, s2) \<Rightarrow> Some (Stop, batchOut, [], [], unlock CmdPoolMutex s2)
            | Some (Continue, s2) \<Rightarrow>
                (case CommandBatch_setPrimaryCommands (primaryCommands st) True batchOut of
                   None \<Rightarrow> None
                 | Some b1 \<Rightarrow>
                     (case CommandBatch_setSecondaryCommands (secondaryCommands st) b1 of
                        None \<Rightarrow> None
                      | Some b2 \<Rightarrow>
                          Some (Continue, b2, waitSemaphores st, waitSemaphoreStageMasks st,
                                unlock CmdPoolMutex
                                  (s2\<lparr>mCommandsStateMap :=
                                        (mCommandsStateMap s2)
                                          (priority := (mCommandsStateMap s2 priority)
                                             (pt := CommandsState_empty))\<rparr>))))))"

text \<open>
  \<open>queueSubmitLocked\<close>, first part (the throttling before the device call), in the two
  blocks of the source: room is made in the in-flight ring, and, when all slots of the
  finished ring are spoken for, finished batches are released. The three assertions are
  those of the source.
\<close>

definition queueSubmitLocked_makeRoom :: "env \<Rightarrow> Context \<Rightarrow> state \<Rightarrow> (Result \<times> state) option" where
  "queueSubmitLocked_makeRoom E ctx s =
     (if FixedQueue_full (kInFlightCommandsLimit E) (mInFlightCommands s) then
        with_lock CmdCompleteMutex
          (\<lambda>s1. if FixedQueue_full (kInFlightCommandsLimit E) (mInFlightCommands s1)
                 then finishOneCommandBatchLocked E ctx (getMaxFenceWaitTimeNs E) s1
                 else Some (Continue, s1)) s
      else Some (Continue, s))"

definition queueSubmitLocked_reclaim :: "env \<Rightarrow> Context \<Rightarrow> state \<Rightarrow> (Result \<times> state) option" where
  "queueSubmitLocked_reclaim E ctx s =
     (if mNumAllCommands s = kMaxFinishedCommandsLimit E then
        with_lock CmdReleaseMutex (releaseFinishedCommandsLocked E ctx) s
      else Some (Continue, s))"

definition queueSubmitLocked_throttle :: "env \<Rightarrow> Context \<Rightarrow> state \<Rightarrow> (Result \<times> state) option" where
  "queueSubmitLocked_throttle E ctx s =
     (case queueSubmitLocked_makeRoom E ctx s of
        None \<Rightarrow> None
      | Some (Stop, s1) \<Rightarrow> Some (Stop, s1)
      | Some (Continue, s1) \<Rightarrow>
          if FixedQueue_full (kInFlightCommandsLimit E) (mInFlightCommands s1) then None
          else if \<not> mNumAllCommands s1 \<le> kMaxFinishedCommandsLimit E then None
          else
            (case queueSubmitLocked_reclaim E ctx s1 of
               None \<Rightarrow> None
             | Some (Stop, s2) \<Rightarrow> Some (Stop, s2)
             | Some (Continue, s2) \<Rightarrow>
                 if \<not> mNumAllCommands s2 < kMaxFinishedCommandsLimit E then None
                 else Some (Continue, s2)))"

text \<open>\<open>queueSubmitLocked\<close>, second part: the device call and the export of a sync fd.\<close>

definition queueSubmitLocked_submit ::
  "env \<Rightarrow> Context \<Rightarrow> ContextPriority \<Rightarrow> VkSubmitInfo \<Rightarrow> CommandBatch \<Rightarrow> state
     \<Rightarrow> (Result \<times> state) option" where
  "queueSubmitLocked_submit E ctx priority submitInfo batch s =
     (if sTypeIsSubmitInfo submitInfo then
        (case CommandBatch_getFenceHandle batch of
           None \<Rightarrow> None
         | Some fence \<Rightarrow>
             if fence = VK_NULL_HANDLE then None
             else
               (case ANGLE_VK_TRY ctx ''queueSubmitLocked'' 1602
                       (vkQueueSubmit E (events s) submitInfo fence)
                       (emit (CallQueueSubmit priority submitInfo fence) s) of
                  None \<Rightarrow> None
                | Some (Stop, s1) \<Rightarrow> Some (Stop, s1)
                | Some (Continue, s1) \<Rightarrow>
                    Some (Continue,
                          (case mExternalFence batch of
                             None \<Rightarrow> s1
                           | Some h \<Rightarrow> emit (CallExportFd h) s1))))
      else Some (Continue, s))"

text \<open>
  \<open>queueSubmitLocked\<close>. The batch of the result is what the caller's \<open>DeviceScoped\<close>
  holds afterwards: the batch itself on an early return, an empty batch once it has been
  moved into the ring.
\<close>

definition queueSubmitLocked ::
  "env \<Rightarrow> Context \<Rightarrow> ContextPriority \<Rightarrow> VkSubmitInfo \<Rightarrow> CommandBatch \<Rightarrow> QueueSerial \<Rightarrow> state
     \<Rightarrow> (Result \<times> CommandBatch \<times> state) option" where
  "queueSubmitLocked E ctx priority submitInfo batch submitQueueSerial s =
     (case queueSubmitLocked_throttle E ctx s of
        None \<Rightarrow> None
      | Some (Stop, s1) \<Rightarrow> Some (Stop, batch, s1)
      | Some (Continue, s1) \<Rightarrow>
          (case queueSubmitLocked_submit E ctx priority submitInfo batch s1 of
             None \<Rightarrow> None
           | Some (Stop, s2) \<Rightarrow> Some (Stop, batch, s2)
           | Some (Continue, s2) \<Rightarrow>
               (case pushInFlightBatchLocked E batch s2 of
                  None \<Rightarrow> None
                | Some s3 \<Rightarrow>
                    Some (Continue, CommandBatch_new, setLastSubmitted submitQueueSerial s3))))"

text \<open>The destructor of \<open>DeviceScoped<CommandBatch>\<close> destroys the batch it holds.\<close>

definition DeviceScoped_exit ::
  "(Result \<times> CommandBatch \<times> state) option \<Rightarrow> (Result \<times> state) option" where
  "DeviceScoped_exit x =
     (case x of
        None \<Rightarrow> None
      | Some (r, b, s) \<Rightarrow> map_option (\<lambda>(b1, s1). (r, s1)) (CommandBatch_destroy b s))"

definition needsQueueSubmit ::
  "CommandBatch \<Rightarrow> VkHandle \<Rightarrow> VkHandle option \<Rightarrow> VkHandle list \<Rightarrow> bool" where
  "needsQueueSubmit batch signalSemaphore externalFence waitSems =
     (valid (mPrimaryCommands batch) \<or> signalSemaphore \<noteq> VK_NULL_HANDLE \<or>
      externalFence \<noteq> None \<or> waitSems \<noteq> [])"

definition submitCommands_scope ::
  "env \<Rightarrow> Context \<Rightarrow> ProtectionType \<Rightarrow> ContextPriority \<Rightarrow> VkHandle \<Rightarrow> VkHandle option
     \<Rightarrow> QueueSerial \<Rightarrow> state \<Rightarrow> (Result \<times> CommandBatch \<times> state) option" where
  "submitCommands_scope E ctx pt priority signalSemaphore externalFence submitQueueSerial s =
     (case CommandBatch_setQueueSerial submitQueueSerial CommandBatch_new of
        None \<Rightarrow> None
      | Some b1 \<Rightarrow>
     (case CommandBatch_setProtectionType pt b1 of
        None \<Rightarrow> None
      | Some b2 \<Rightarrow>
     (case CommandPoolAccess_getCommandsAndWaitSemaphores E ctx pt priority b2 s of
        None \<Rightarrow> None
      | Some (Stop, b3, ws, ms, s1) \<Rightarrow> Some (Stop, b3, s1)
      | Some (Continue, b3, ws, ms, s1) \<Rightarrow>
          if needsQueueSubmit b3 signalSemaphore externalFence ws then
            (case InitializeSubmitInfo VkSubmitInfo_zero (mPrimaryCommands b3) ws ms
                    signalSemaphore of
               None \<Rightarrow> None
             | Some si \<Rightarrow>
                 let si1 = (if pt = Protected \<and> valid (mPrimaryCommands b3)
                            then si\<lparr>protectedSubmit := True\<rparr> else si)
                 in
                 (case (if externalFence = None then
                          (case CommandBatch_initFence E b3 s1 of
                             None \<Rightarrow> None
                           | Some (r, b4, s2) \<Rightarrow>
                               map_option (\<lambda>(res, s3). (res, b4, s3))
                                 (ANGLE_VK_TRY ctx ''submitCommands'' 1497 r s2))
                        else
                          map_option (\<lambda>b4. (Continue, b4, s1))
                            (CommandBatch_setExternalFence externalFence b3)) of
                    None \<Rightarrow> None
                  | Some (Stop, b4, s3) \<Rightarrow> Some (Stop, b4, s3)
                  | Some (Continue, b4, s3) \<Rightarrow>
                      queueSubmitLocked E ctx priority si1 b4 submitQueueSerial s3))
          else queueSubmitLocked E ctx priority VkSubmitInfo_zero b3 submitQueueSerial s1)))"

definition CommandQueue_submitCommands ::
  "env \<Rightarrow> Context \<Rightarrow> ProtectionType \<Rightarrow> ContextPriority \<Rightarrow> VkHandle \<Rightarrow> VkHandle option
     \<Rightarrow> QueueSerial \<Rightarrow> state \<Rightarrow> (Result \<times> state) option" where
  "CommandQueue_submitCommands E ctx pt priority signalSemaphore externalFence
       submitQueueSerial s =
     with_lock QueueSubmitMutex
       (\<lambda>s0. DeviceScoped_exit
                (submitCommands_scope E ctx pt priority signalSemaphore externalFence
                   submitQueueSerial s0)) s"

definition queueSubmitOneOff_scope ::
  "env \<Rightarrow> Context \<Rightarrow> ProtectionType \<Rightarrow> ContextPriority \<Rightarrow> VkHandle \<Rightarrow> VkHandle \<Rightarrow> nat
     \<Rightarrow> QueueSerial \<Rightarrow> state \<Rightarrow> (Result \<times> CommandBatch \<times> state) option" where
  "queueSubmitOneOff_scope E ctx pt priority commandBufferHandle waitSemaphore
       waitSemaphoreStageMask submitQueueSerial s =
     (case CommandBatch_setQueueSerial submitQueueSerial CommandBatch_new of
        None \<Rightarrow> None
      | Some b1 \<Rightarrow>
     (case CommandBatch_setProtectionType pt b1 of
        None \<Rightarrow> None
      | Some b2 \<Rightarrow>
     (case CommandBatch_initFence E b2 s of
        None \<Rightarrow> None
      | Some (r, b3, s1) \<Rightarrow>
     (case ANGLE_VK_TRY ctx ''queueSubmitOneOff'' 1526 r s1 of
        None \<Rightarrow> None
      | Some (Stop, s2) \<Rightarrow> Some (Stop, b3, s2)
      | Some (Continue, s2) \<Rightarrow>
          if \<not> (pt = Unprotected \<or> pt = Protected) then None
          else
            let si = VkSubmitInfo_zero
                       \<lparr>sTypeIsSubmitInfo := True,
                        protectedSubmit := (pt = Protected),
                        commandBuffers :=
                          (if commandBufferHandle \<noteq> VK_NULL_HANDLE then [commandBufferHandle]
                           else []),
                        submitWaitSemaphores :=
                          (if waitSemaphore \<noteq> VK_NULL_HANDLE then [waitSemaphore] else []),
                        submitWaitDstStageMask :=
                          (if waitSemaphore \<noteq> VK_NULL_HANDLE then [waitSemaphoreStageMask]
                           else [])\<rparr>
            in queueSubmitLocked E ctx priority si b3 submitQueueSerial s2))))"

definition CommandQueue_queueSubmitOneOff ::
  "env \<Rightarrow> Context \<Rightarrow> ProtectionType \<Rightarrow> ContextPriority \<Rightarrow> VkHandle \<Rightarrow> VkHandle \<Rightarrow> nat
     \<Rightarrow> QueueSerial \<Rightarrow> state \<Rightarrow> (Result \<times> state) option" where
  "CommandQueue_queueSubmitOneOff E ctx pt priority commandBufferHandle waitSemaphore
       waitSemaphoreStageMask submitQueueSerial s =
     with_lock QueueSubmitMutex
       (\<lambda>s0. DeviceScoped_exit
                (queueSubmitOneOff_scope E ctx pt priority commandBufferHandle waitSemaphore
                   waitSemaphoreStageMask submitQueueSerial s0)) s"

definition CommandQueue_queuePresent ::
  "env \<Rightarrow> ContextPriority \<Rightarrow> VkPresentInfoKHR \<Rightarrow> nat \<Rightarrow> state \<Rightarrow> state" where
  "CommandQueue_queuePresent E priority presentInfo status s =
     (let s1 = lock QueueSubmitMutex s;
          r = vkQueuePresentKHR E (events s1) presentInfo;
          s2 = emit (CallQueuePresent priority presentInfo) s1;
          s3 = emit (StoreLastPresentResult status r)
                 (s2\<lparr>swapchainStatus :=
                       (swapchainStatus s2)
                         (status := (swapchainStatus s2 status)\<lparr>lastPresentResult := r\<rparr>)\<rparr>)
      in unlock QueueSubmitMutex s3)"

section \<open>Histories of a batch\<close>

text \<open>
  The mutators of \<open>CommandBatch\<close>, as operations, and a run of a list of them from
  the default-constructed batch; a failed assertion ends the run with \<open>None\<close>.
\<close>

datatype BatchOp =
    OpSetQueueSerial QueueSerial
  | OpSetProtectionType ProtectionType
  | OpSetPrimaryCommands VkHandle bool
  | OpSetSecondaryCommands "nat list"
  | OpInitFence
  | OpSetExternalFence "VkHandle option"
  | OpRelease
  | OpDestroy

fun applyBatchOp ::
  "env \<Rightarrow> Context \<Rightarrow> BatchOp \<Rightarrow> CommandBatch \<times> state \<Rightarrow> (CommandBatch \<times> state) option" where
  "applyBatchOp E ctx (OpSetQueueSerial q) (b, s) =
     map_option (\<lambda>b1. (b1, s)) (CommandBatch_setQueueSerial q b)"
| "applyBatchOp E ctx (OpSetProtectionType pt) (b, s) =
     map_option (\<lambda>b1. (b1, s)) (CommandBatch_setProtectionType pt b)"
| "applyBatchOp E ctx (OpSetPrimaryCommands p a) (b, s) =
     map_option (\<lambda>b1. (b1, s)) (CommandBatch_setPrimaryCommands p a b)"
| "applyBatchOp E ctx (OpSetSecondaryCommands l) (b, s) =
     map_option (\<lambda>b1. (b1, s)) (CommandBatch_setSecondaryCommands l b)"
| "applyBatchOp E ctx OpInitFence (b, s) =
     map_option (\<lambda>(r, b1, s1). (b1, s1)) (CommandBatch_initFence E b s)"
| "applyBatchOp E ctx (OpSetExternalFence x) (b, s) =
     map_option (\<lambda>b1. (b1, s)) (CommandBatch_setExternalFence x b)"
| "applyBatchOp E ctx OpRelease (b, s) =
     map_option (\<lambda>(r, b1, s1). (b1, s1)) (CommandBatch_release E ctx b s)"
| "applyBatchOp E ctx OpDestroy (b, s) = CommandBatch_destroy b s"

fun runBatchOps ::
  "env \<Rightarrow> Context \<Rightarrow> BatchOp list \<Rightarrow> CommandBatch \<times> state \<Rightarrow> (CommandBatch \<times> state) option" where
  "runBatchOps E ctx [] bs = Some bs"
| "runBatchOps E ctx (x # xs) bs =
     (case applyBatchOp E ctx x bs of None \<Rightarrow> None | Some bs1 \<Rightarrow> runBatchOps E ctx xs bs1)"

definition atMostOneFenceSource :: "CommandBatch \<Rightarrow> bool" where
  "atMostOneFenceSource b = (mFence b = None \<or> mExternalFence b = None)"

section \<open>Device loss, stated per batch\<close>

text \<open>
  What the claim on device loss says happens for one in-flight batch, as events: a wait on
  its fence with the renderer's maximal wait time if it has one, the store of its serial
  to last-completed, the destruction of its primary buffer under the pool mutex, the
  release of its secondary buffers, and the destruction of its internal fence.
\<close>

definition deviceLost_batch_events :: "env \<Rightarrow> CommandBatch \<Rightarrow> event list" where
  "deviceLost_batch_events E b =
     (case CommandBatch_getFenceHandle b of
        None \<Rightarrow> []
      | Some h \<Rightarrow> [CallWaitForFence h (getMaxFenceWaitTimeNs E)]) @
     [StoreLastCompleted (mQueueSerial b)] @
     (if valid (mPrimaryCommands b)
      then [Lock CmdPoolMutex, CallDestroyPrimary (mPrimaryCommands b), Unlock CmdPoolMutex]
      else []) @
     (if mSecondaryCommands b = [] then []
      else [ReleaseSecondaryCommandBuffers (mSecondaryCommands b)]) @
     (case mFence b of None \<Rightarrow> [] | Some rf \<Rightarrow> [CallDestroyFence (rfFence rf)])"

text \<open>
  A batch as the submission functions build it: a valid serial, at most one fence, a
  valid internal fence, and a pool to go with a valid primary buffer.
\<close>

definition batch_ok :: "CommandBatch \<Rightarrow> bool" where
  "batch_ok b =
     (QueueSerial_valid (mQueueSerial b) \<and> hasFence b \<noteq> None \<and>
      (valid (mPrimaryCommands b) \<longrightarrow> mCommandPoolAccess b))"

definition completeAll :: "CommandBatch list \<Rightarrow> (nat \<Rightarrow> Serial) \<Rightarrow> (nat \<Rightarrow> Serial)" where
  "completeAll bs m =
     foldl (\<lambda>m1 b. m1(qsIndex (mQueueSerial b) := qsSerial (mQueueSerial b))) m bs"

section \<open>Locks held and the state of the rings\<close>


definition leavesSubmitLock :: "event \<Rightarrow> bool" where
  "leavesSubmitLock e = (e \<noteq> Lock QueueSubmitMutex \<and> e \<noteq> Unlock QueueSubmitMutex)"

text \<open>
  The device submit, the acquisition of a fence (its creation, or its reset on the way out
  of the recycler), and the two steps that make a submission visible: the push onto the
  in-flight ring and the store to \<open>mLastSubmittedSerials\<close>. An event is quiet when it
  is none of these and leaves the submit mutex alone.
\<close>

definition isQueueSubmit :: "event \<Rightarrow> bool" where
  "isQueueSubmit e = (case e of CallQueueSubmit _ _ _ \<Rightarrow> True | _ \<Rightarrow> False)"

definition isFenceAcquire :: "event \<Rightarrow> bool" where
  "isFenceAcquire e = (case e of CallCreateFence \<Rightarrow> True | CallResetFence _ \<Rightarrow> True | _ \<Rightarrow> False)"

definition isPush :: "event \<Rightarrow> bool" where
  "isPush e = (case e of PushInFlight _ \<Rightarrow> True | _ \<Rightarrow> False)"

definition isStoreSubmitted :: "event \<Rightarrow> bool" where
  "isStoreSubmitted e = (case e of StoreLastSubmitted _ \<Rightarrow> True | _ \<Rightarrow> False)"

definition noPush :: "event \<Rightarrow> bool" where
  "noPush e = (\<not> isPush e \<and> \<not> isStoreSubmitted e)"

definition quiet :: "event \<Rightarrow> bool" where
  "quiet e = (leavesSubmitLock e \<and> \<not> isQueueSubmit e \<and> \<not> isFenceAcquire e \<and> noPush e)"

text \<open>An event is calm when it is quiet or the acquisition of a fence.\<close>

definition calm :: "event \<Rightarrow> bool" where
  "calm e = (leavesSubmitLock e \<and> \<not> isQueueSubmit e \<and> noPush e)"

definition appends :: "(event \<Rightarrow> bool) \<Rightarrow> state \<Rightarrow> state \<Rightarrow> bool" where
  "appends P s s1 = (\<exists>evs. events s1 = events s @ evs \<and> list_all P evs)"


section \<open>The end of a submission, seen from other threads\<close>

text \<open>
  The end of \<open>queueSubmitLocked\<close> as another thread can see it. The submitting thread,
  which holds the submit mutex, has two steps left after the device call: the push onto
  the in-flight ring and the store to \<open>mLastSubmittedSerials\<close>, in this order. Between
  them other threads can run what does not need the submit mutex: the completion of the
  oldest in-flight batch (under the complete mutex), the release of the oldest finished
  batch (under the release mutex), and anything that leaves rings and serials alone. A
  configuration is the submitter's position, the state, and the batches already
  released.
\<close>

datatype SubmitPosition = BeforePush | AfterPush | AfterStore

inductive interleaved ::
  "env \<Rightarrow> Context \<Rightarrow> CommandBatch \<Rightarrow> QueueSerial \<Rightarrow> state
     \<Rightarrow> SubmitPosition \<times> state \<times> CommandBatch list \<Rightarrow> bool"
  for E ctx batch q s0 where
    start: "interleaved E ctx batch q s0 (BeforePush, s0, [])"
  | push:
      "interleaved E ctx batch q s0 (BeforePush, s, gone) \<Longrightarrow>
       pushInFlightBatchLocked E batch s = Some s1 \<Longrightarrow>
       interleaved E ctx batch q s0 (AfterPush, s1, gone)"
  | store:
      "interleaved E ctx batch q s0 (AfterPush, s, gone) \<Longrightarrow>
       interleaved E ctx batch q s0 (AfterStore, setLastSubmitted q s, gone)"
  | complete:
      "interleaved E ctx batch q s0 (pos, s, gone) \<Longrightarrow>
       onCommandBatchFinishedLocked E s = Some s1 \<Longrightarrow>
       interleaved E ctx batch q s0 (pos, s1, gone)"
  | release:
      "interleaved E ctx batch q s0 (pos, s, gone) \<Longrightarrow>
       mFinishedCommandBatches s = f # rest \<Longrightarrow>
       releaseFinishedCommandsLocked_body E ctx s = Some (Continue, s1) \<Longrightarrow>
       interleaved E ctx batch q s0 (pos, s1, gone @ [f])"
  | other:
      "interleaved E ctx batch q s0 (pos, s, gone) \<Longrightarrow>
       ringsKept s s1 \<Longrightarrow>
       interleaved E ctx batch q s0 (pos, s1, gone)"

section \<open>A submission with work\<close>

text \<open>
  The condition of the claim on a submission, read off the state before the call: the
  commands state of the priority and protection type holds a valid primary buffer, or a
  signal semaphore or an external fence is supplied, or wait semaphores have accumulated.
\<close>

definition submissionHasWork ::
  "state \<Rightarrow> ProtectionType \<Rightarrow> ContextPriority \<Rightarrow> VkHandle \<Rightarrow> VkHandle option \<Rightarrow> bool" where
  "submissionHasWork s pt priority signalSemaphore externalFence =
     (valid (primaryCommands (mCommandsStateMap s priority pt)) \<or>
      signalSemaphore \<noteq> VK_NULL_HANDLE \<or> externalFence \<noteq> None \<or>
      waitSemaphores (mCommandsStateMap s priority pt) \<noteq> [])"

section \<open>CommandQueue: completion and waiting\<close>

lemma checkOneCommandBatchLocked_shrinks:
  assumes "checkOneCommandBatchLocked E ctx s = Some (r, True, s1)"
  shows "mInFlightCommands s1 = tl (mInFlightCommands s) \<and> mInFlightCommands s \<noteq> []"
proof -
  have on: "onCommandBatchFinishedLocked E s0 = Some s3 \<Longrightarrow>
      mInFlightCommands s3 = tl (mInFlightCommands s0) \<and> mInFlightCommands s0 \<noteq> []" for s0 s3
    by (auto simp: onCommandBatchFinishedLocked_def moveInFlightBatchToFinishedQueueLocked_def
        FixedQueue_front_def FixedQueue_pop_def setLastCompleted_def emit_def
        split: option.splits if_splits list.splits)
  from assms show ?thesis
    by (auto simp: checkOneCommandBatchLocked_def frame_def ringsKept_def
        split: option.splits bool.splits prod.splits Result.splits if_splits
        dest!: on frame_getFenceStatus frame_ANGLE_VK_TRY)
qed

function checkCompletedCommandsLocked ::
  "env \<Rightarrow> Context \<Rightarrow> state \<Rightarrow> (Result \<times> state) option" where
  "checkCompletedCommandsLocked E ctx s =
     (if mInFlightCommands s = [] then Some (Continue, s)
      else
        (case checkOneCommandBatchLocked E ctx s of
           None \<Rightarrow> None
         | Some (Stop, finished, s1) \<Rightarrow> Some (Stop, s1)
         | Some (Continue, finished, s1) \<Rightarrow>
             if \<not> finished then Some (Continue, s1)
             else checkCompletedCommandsLocked E ctx s1))"
  by pat_completeness auto

termination checkCompletedCommandsLocked
proof (relation "measure (\<lambda>(E, ctx, s). length (mInFlightCommands s))", goal_cases)
  case 1
  show ?case by simp
next
  case (2 E ctx s x2 x1 x2a finished s1)
  then have "checkOneCommandBatchLocked E ctx s = Some (Continue, True, s1)"
    by simp
  from checkOneCommandBatchLocked_shrinks [OF this] show ?case
    by (cases "mInFlightCommands s") simp_all
qed

declare checkCompletedCommandsLocked.simps [simp del]

text \<open>
  \<open>waitFenceUnlocked\<close> on the front of the in-flight ring: the complete mutex is released
  for the wait and taken again.
\<close>

definition waitFenceUnlocked :: "env \<Rightarrow> 64 word \<Rightarrow> state \<Rightarrow> (VkResult \<times> state) option" where
  "waitFenceUnlocked E timeout s =
     (case FixedQueue_front (mInFlightCommands s) of
        None \<Rightarrow> None
      | Some batch \<Rightarrow>
          (case CommandBatch_waitFence E batch timeout (unlock CmdCompleteMutex s) of
             None \<Rightarrow> None
           | Some (status, s1) \<Rightarrow> Some (status, lock CmdCompleteMutex s1)))"

text \<open>
  Modelled from the spec: \<open>CommandQueue::releaseFinishedCommands\<close> is an inline function
  of the header, which is outside the sources at hand, and the renderer's garbage
  collection is outside the subsystem. Spec 4.3: ReleaseFinishedCommands under the release
  lock calls each finished batch's Release.
\<close>

definition CommandQueue_releaseFinishedCommands ::
  "env \<Rightarrow> Context \<Rightarrow> state \<Rightarrow> (Result \<times> state) option" where
  "CommandQueue_releaseFinishedCommands E ctx s =
     with_lock CmdReleaseMutex (releaseFinishedCommandsLocked E ctx) s"

definition releaseFinishedCommandsAndCleanupGarbage ::
  "env \<Rightarrow> Context \<Rightarrow> state \<Rightarrow> (Result \<times> state) option" where
  "releaseFinishedCommandsAndCleanupGarbage E ctx s =
     (if isAsyncCommandBufferResetAndGarbageCleanupEnabled E
      then Some (Continue, emit CallRequestAsyncCleanup s)
      else
        (case CommandQueue_releaseFinishedCommands E ctx s of
           None \<Rightarrow> None
         | Some (Stop, s1) \<Rightarrow> Some (Stop, s1)
         | Some (Continue, s1) \<Rightarrow> Some (Continue, emit CallCleanupGarbage s1)))"

text \<open>
  The loop of \<open>waitForResourceUseToFinishWithUserTimeout\<close>, with the value of
  \<open>*result\<close> as an argument. It ends when the ring is empty or the use is finished, on a
  timed-out wait, or with \<open>Stop\<close> on an error; with a device that keeps answering
  "not ready" and "waited" it does not end.
\<close>

partial_function (option) userTimeout_loop ::
  "env \<Rightarrow> Context \<Rightarrow> ResourceUse \<Rightarrow> 64 word \<Rightarrow> VkResult \<Rightarrow> state
     \<Rightarrow> (Result \<times> VkResult \<times> state) option" where
  "userTimeout_loop E ctx use timeout res s =
     (if mInFlightCommands s \<noteq> [] \<and> \<not> hasResourceUseFinished use s then
        (case checkOneCommandBatchLocked E ctx s of
           None \<Rightarrow> None
         | Some (r, finished, s1) \<Rightarrow>
             if r = Stop then Some (Stop, res, s1)
             else if \<not> finished then
               (case waitFenceUnlocked E timeout s1 of
                  None \<Rightarrow> None
                | Some (w, s2) \<Rightarrow>
                    if w = VK_TIMEOUT then Some (Continue, w, s2)
                    else
                      (case ANGLE_VK_TRY ctx ''waitForResourceUseToFinishWithUserTimeout''
                              1410 w s2 of
                         None \<Rightarrow> None
                       | Some (r2, s3) \<Rightarrow>
                           if r2 = Stop then Some (Stop, w, s3)
                           else userTimeout_loop E ctx use timeout w s3))
             else
               userTimeout_loop E ctx use timeout
                 (if hasResourceUseFinished use s1 then VK_SUCCESS else VK_NOT_READY) s1)
      else Some (Continue, res, s))"

text \<open>
  \<open>waitForResourceUseToFinishWithUserTimeout\<close>; the argument \<open>result0\<close> is what
  \<open>*result\<close> holds at the call, the second component of the answer what it holds at the
  return.
\<close>

definition CommandQueue_waitForResourceUseToFinishWithUserTimeout ::
  "env \<Rightarrow> Context \<Rightarrow> ResourceUse \<Rightarrow> 64 word \<Rightarrow> VkResult \<Rightarrow> state
     \<Rightarrow> (Result \<times> VkResult \<times> state) option" where
  "CommandQueue_waitForResourceUseToFinishWithUserTimeout E ctx use timeout result0 s =
     (if \<not> hasResourceUseSubmitted use s then Some (Continue, VK_TIMEOUT, s)
      else
        let s0 = lock CmdCompleteMutex s;
            res0 = (if hasResourceUseFinished use s0 then VK_SUCCESS else VK_NOT_READY)
        in
        (case userTimeout_loop E ctx use timeout res0 s0 of
           None \<Rightarrow> None
         | Some (Stop, res, s1) \<Rightarrow> Some (Stop, res, unlock CmdCompleteMutex s1)
         | Some (Continue, res, s1) \<Rightarrow>
             (case checkCompletedCommandsLocked E ctx s1 of
                None \<Rightarrow> None
              | Some (Stop, s2) \<Rightarrow> Some (Stop, res, unlock CmdCompleteMutex s2)
              | Some (Continue, s2) \<Rightarrow>
                  let finishedCount = length (mFinishedCommandBatches s2);
                      s3 = unlock CmdCompleteMutex s2
                  in if finishedCount > 0 then
                       map_option (\<lambda>(r, s4). (r, res, s4))
                         (releaseFinishedCommandsAndCleanupGarbage E ctx s3)
                     else Some (Continue, res, s3))))"

section \<open>CommandPoolAccess: flushing\<close>

definition CommandPoolAccess_flushWaitSemaphores ::
  "ProtectionType \<Rightarrow> ContextPriority \<Rightarrow> VkHandle list \<Rightarrow> nat list \<Rightarrow> state \<Rightarrow> state option" where
  "CommandPoolAccess_flushWaitSemaphores pt priority sems masks s =
     (if sems = [] then None
      else if length sems \<noteq> length masks then None
      else
        let s1 = lock CmdPoolMutex s;
            st = mCommandsStateMap s1 priority pt;
            st1 = st\<lparr>waitSemaphores := waitSemaphores st @ sems,
                     waitSemaphoreStageMasks := waitSemaphoreStageMasks st @ masks\<rparr>
        in Some (unlock CmdPoolMutex
                   (s1\<lparr>mCommandsStateMap :=
                         (mCommandsStateMap s1)
                           (priority := (mCommandsStateMap s1 priority)(pt := st1))\<rparr>)))"

text \<open>
  Modelled from the spec: \<open>ensurePrimaryCommandBufferValidLocked\<close> and the helpers'
  \<open>flushToPrimary\<close> are outside the sources at hand. Spec 4.2: the flush ensures that the
  target state has a valid primary buffer and appends the buffer's recorded contents to
  it. The allocation of a primary buffer and the flush can fail.
\<close>

definition ensurePrimaryCommandBufferValidLocked ::
  "env \<Rightarrow> Context \<Rightarrow> ProtectionType \<Rightarrow> ContextPriority \<Rightarrow> state \<Rightarrow> (Result \<times> state) option" where
  "ensurePrimaryCommandBufferValidLocked E ctx pt priority s =
     (let st = mCommandsStateMap s priority pt in
      if valid (primaryCommands st) then Some (Continue, s)
      else
        let (r, h) = poolAllocate E (events s) pt;
            s1 = emit (CallAllocatePrimary pt) s
        in
        (case ANGLE_VK_TRY ctx ''ensurePrimaryCommandBufferValidLocked'' 0 r s1 of
           None \<Rightarrow> None
         | Some (Stop, s2) \<Rightarrow> Some (Stop, s2)
         | Some (Continue, s2) \<Rightarrow>
             if \<not> valid h then None
             else
               Some (Continue,
                     s2\<lparr>mCommandsStateMap :=
                          (mCommandsStateMap s2)
                            (priority := (mCommandsStateMap s2 priority)
                               (pt := (mCommandsStateMap s2 priority pt)
                                        \<lparr>primaryCommands := h\<rparr>))\<rparr>)))"

definition CommandPoolAccess_flushCommands ::
  "env \<Rightarrow> Context \<Rightarrow> ProtectionType \<Rightarrow> ContextPriority \<Rightarrow> nat \<Rightarrow> state
     \<Rightarrow> (Result \<times> state) option" where
  "CommandPoolAccess_flushCommands E ctx pt priority commands s =
     with_lock CmdPoolMutex
       (\<lambda>s0. case ensurePrimaryCommandBufferValidLocked E ctx pt priority s0 of
                None \<Rightarrow> None
              | Some (Stop, s1) \<Rightarrow> Some (Stop, s1)
              | Some (Continue, s1) \<Rightarrow>
                  ANGLE_VK_TRY ctx ''flushToPrimary'' 0
                    (flushToPrimary E (events s1) commands)
                    (emit (CallFlushToPrimary commands
                             (primaryCommands (mCommandsStateMap s1 priority pt))) s1)) s"

section \<open>CommandProcessor\<close>

text \<open>
  The loop of \<open>checkAndPopPendingError\<close>: the front error is popped and handed to the
  context. With the command processor itself as the context every error is pushed again
  and the loop does not end.
\<close>

partial_function (option) checkAndPopPendingError_loop :: "Context \<Rightarrow> state \<Rightarrow> state option" where
  "checkAndPopPendingError_loop ctx s =
     (case mErrors s of
        [] \<Rightarrow> Some s
      | err # rest \<Rightarrow>
          (case Context_handleError ctx (errorCode err) (errFile err) (errFunction err)
                  (errLine err) (s\<lparr>mErrors := rest\<rparr>) of
             None \<Rightarrow> None
           | Some s1 \<Rightarrow> checkAndPopPendingError_loop ctx s1))"

definition checkAndPopPendingError :: "Context \<Rightarrow> state \<Rightarrow> (Result \<times> state) option" where
  "checkAndPopPendingError errorHandlingContext s =
     with_lock ErrorMutex
       (\<lambda>s0. if mErrors s0 = [] then Some (Continue, s0)
              else map_option (\<lambda>s1. (Stop, s1))
                     (checkAndPopPendingError_loop errorHandlingContext s0)) s"

definition CommandProcessor_present ::
  "env \<Rightarrow> ContextPriority \<Rightarrow> VkPresentInfoKHR \<Rightarrow> nat \<Rightarrow> state \<Rightarrow> (VkResult \<times> state) option" where
  "CommandProcessor_present E priority presentInfo status s =
     (if swapchainCount presentInfo \<noteq> 1 then None
      else if hasResults presentInfo then None
      else
        let s1 = CommandQueue_queuePresent E priority presentInfo status s;
            result = lastPresentResult (swapchainStatus s1 status)
        in if \<not> isPending (swapchainStatus s1 status) then None
           else
             Some (result,
                   emit (StoreIsPending status False)
                     (s1\<lparr>swapchainStatus :=
                           (swapchainStatus s1)
                             (status := (swapchainStatus s1 status)\<lparr>isPending := False\<rparr>)\<rparr>)))"

text \<open>
  \<open>processTask\<close>. The context handed to the command queue is the processor itself.
\<close>

fun processTask :: "env \<Rightarrow> CommandProcessorTask \<Rightarrow> state \<Rightarrow> (Result \<times> state) option" where
  "processTask E (FlushAndQueueSubmit semaphore externalFence pt priority q) s =
     (case CommandQueue_submitCommands E CommandProcessorContext pt priority semaphore
             externalFence q s of
        None \<Rightarrow> None
      | Some (Stop, s1) \<Rightarrow> Some (Stop, s1)
      | Some (Continue, s1) \<Rightarrow> Some (Continue, s1\<lparr>mNeedCommandsAndGarbageCleanup := True\<rparr>))"
| "processTask E (OneOffQueueSubmit commandBuffer pt priority waitSemaphore stageMask q) s =
     (case CommandQueue_queueSubmitOneOff E CommandProcessorContext pt priority commandBuffer
             waitSemaphore stageMask q s of
        None \<Rightarrow> None
      | Some (Stop, s1) \<Rightarrow> Some (Stop, s1)
      | Some (Continue, s1) \<Rightarrow> Some (Continue, s1\<lparr>mNeedCommandsAndGarbageCleanup := True\<rparr>))"
| "processTask E (Present priority presentInfo status) s =
     (case CommandProcessor_present E priority presentInfo status s of
        None \<Rightarrow> None
      | Some (result, s1) \<Rightarrow>
          if result \<noteq> VK_ERROR_OUT_OF_DATE_KHR \<and> result \<noteq> VK_SUBOPTIMAL_KHR \<and>
             result \<noteq> VK_SUCCESS
          then map_option (\<lambda>s2. (Continue, s2))
                 (CommandProcessor_handleError result thisFile ''processTask'' 765 s1)
          else Some (Continue, s1))"
| "processTask E (FlushWaitSemaphores pt priority sems masks) s =
     map_option (\<lambda>s1. (Continue, s1))
       (CommandPoolAccess_flushWaitSemaphores pt priority sems masks s)"
| "processTask E (ProcessOutsideRenderPassCommands pt priority commandBuffer) s =
     (case CommandPoolAccess_flushCommands E CommandProcessorContext pt priority
             commandBuffer s of
        None \<Rightarrow> None
      | Some (Stop, s1) \<Rightarrow> Some (Stop, s1)
      | Some (Continue, s1) \<Rightarrow> Some (Continue, emit (CallRecycleHelper commandBuffer) s1))"
| "processTask E (ProcessRenderPassCommands pt priority commandBuffer renderPass fb) s =
     (case CommandPoolAccess_flushCommands E CommandProcessorContext pt priority
             commandBuffer s of
        None \<Rightarrow> None
      | Some (Stop, s1) \<Rightarrow> Some (Stop, s1)
      | Some (Continue, s1) \<Rightarrow> Some (Continue, emit (CallRecycleHelper commandBuffer) s1))"
| "processTask E Invalid s = None"


text \<open>
  \<open>CommandProcessorTask::copyPresentInfo\<close>. The first argument is the task's own
  \<open>mPresentInfo\<close>, which \<open>initTask\<close> has zeroed. Nothing is copied from an info
  whose structure type is zero. The task keeps one swapchain with its image index, one
  wait semaphore and one structure of each known kind, and asserts that the caller's info
  has no more of each. The loop over the chain comes last: a structure of an unknown kind
  runs into \<open>UNREACHABLE\<close> and does not advance along the chain.
\<close>

definition VkPresentInfoKHR_zero :: VkPresentInfoKHR where
  "VkPresentInfoKHR_zero =
     \<lparr>presentSType = 0, swapchainCount = 0, swapchain = VK_NULL_HANDLE, imageIndex = 0,
      waitSemaphoreCount = 0, presentWaitSemaphore = VK_NULL_HANDLE, hasResults = False,
      presentRegions = None, presentFenceInfo = None, presentModeInfo = None,
      otherStructure = None\<rparr>"

definition copyPresentInfo_chain ::
  "VkPresentInfoKHR \<Rightarrow> VkPresentInfoKHR \<Rightarrow> VkPresentInfoKHR option" where
  "copyPresentInfo_chain mPresentInfo other =
     (if otherStructure other \<noteq> None then None
      else
        let p1 = mPresentInfo\<lparr>presentRegions := presentRegions other\<rparr> in
        case (case presentFenceInfo other of
                None \<Rightarrow> Some p1
              | Some (n, fence) \<Rightarrow>
                  if n \<noteq> 1 then None
                  else Some (p1\<lparr>presentFenceInfo := Some (1, fence)\<rparr>)) of
          None \<Rightarrow> None
        | Some p2 \<Rightarrow>
            (case presentModeInfo other of
               None \<Rightarrow> Some p2
             | Some (n, mode) \<Rightarrow>
                 if n \<noteq> 1 then None
                 else Some (p2\<lparr>presentModeInfo := Some (1, mode)\<rparr>)))"

definition CommandProcessorTask_copyPresentInfo ::
  "VkPresentInfoKHR \<Rightarrow> VkPresentInfoKHR \<Rightarrow> VkPresentInfoKHR option" where
  "CommandProcessorTask_copyPresentInfo mPresentInfo other =
     (if presentSType other = 0 then Some mPresentInfo
      else
        let p0 = mPresentInfo\<lparr>presentSType := presentSType other, presentRegions := None,
                   presentFenceInfo := None, presentModeInfo := None,
                   otherStructure := None\<rparr>
        in
        case (if swapchainCount other > 0 then
                (if swapchainCount other \<noteq> 1 then None
                 else Some (p0\<lparr>swapchainCount := 1, swapchain := swapchain other,
                               imageIndex := imageIndex other\<rparr>))
              else Some p0) of
          None \<Rightarrow> None
        | Some p1 \<Rightarrow>
            (case (if waitSemaphoreCount other > 0 then
                     (if waitSemaphoreCount other \<noteq> 1 then None
                      else Some (p1\<lparr>waitSemaphoreCount := 1,
                                    presentWaitSemaphore := presentWaitSemaphore other\<rparr>))
                   else Some p1) of
               None \<Rightarrow> None
             | Some p2 \<Rightarrow> copyPresentInfo_chain (p2\<lparr>hasResults := hasResults other\<rparr>) other))"




text \<open>
  The loop of \<open>waitForResourceUseToBeSubmitted\<close>, with its two counters.
\<close>

function waitForResourceUseToBeSubmitted_loop ::
  "env \<Rightarrow> ResourceUse \<Rightarrow> nat \<Rightarrow> nat \<Rightarrow> state \<Rightarrow> (Result \<times> state) option" where
  "waitForResourceUseToBeSubmitted_loop E use maxTaskCount taskCount s =
     (if taskCount < maxTaskCount \<and> \<not> hasResourceUseSubmitted use s then
        (case FixedQueue_front (mTaskQueue s) of
           None \<Rightarrow> None
         | Some task \<Rightarrow>
             (case FixedQueue_pop (mTaskQueue s) of
                None \<Rightarrow> None
              | Some rest \<Rightarrow>
                  (case processTask E task (s\<lparr>mTaskQueue := rest\<rparr>) of
                     None \<Rightarrow> None
                   | Some (Stop, s1) \<Rightarrow> Some (Stop, s1)
                   | Some (Continue, s1) \<Rightarrow>
                       waitForResourceUseToBeSubmitted_loop E use maxTaskCount
                         (taskCount + 1) s1)))
      else Some (Continue, s))"
  by pat_completeness auto

termination waitForResourceUseToBeSubmitted_loop
  by (relation "measure (\<lambda>(E, use, maxTaskCount, taskCount, s). maxTaskCount - taskCount)")
     auto

declare waitForResourceUseToBeSubmitted_loop.simps [simp del]

definition waitForResourceUseToBeSubmitted ::
  "env \<Rightarrow> Context \<Rightarrow> ResourceUse \<Rightarrow> state \<Rightarrow> (Result \<times> state) option" where
  "waitForResourceUseToBeSubmitted E context use s =
     (if hasResourceUseSubmitted use s then checkAndPopPendingError context s
      else
        with_lock TaskDequeueMutex
          (\<lambda>s0. case checkAndPopPendingError context s0 of
                   None \<Rightarrow> None
                 | Some (Stop, s1) \<Rightarrow> Some (Stop, s1)
                 | Some (Continue, s1) \<Rightarrow>
                     waitForResourceUseToBeSubmitted_loop E use (length (mTaskQueue s1)) 0 s1)
          s)"

text \<open>
  The behaviour the specification gives to \<open>waitForResourceUseToBeSubmitted\<close> on a use that
  is not yet observed submitted, written from its words and not from the loop: "pop and
  execute tasks from the queue (up to the queue size at entry) until it is". The tasks are
  the queue as it stands at entry; each one is executed with the rest of the queue behind
  it, and only while the use is not observed submitted. The result counts the tasks
  executed.
\<close>

fun popAndExecuteTasks_spec ::
  "env \<Rightarrow> ResourceUse \<Rightarrow> CommandProcessorTask list \<Rightarrow> state \<Rightarrow>
     (nat \<times> Result \<times> state) option" where
  "popAndExecuteTasks_spec E use [] s = Some (0, Continue, s)"
| "popAndExecuteTasks_spec E use (task # rest) s =
     (if hasResourceUseSubmitted use s then Some (0, Continue, s)
      else
        (case processTask E task (s\<lparr>mTaskQueue := rest\<rparr>) of
           None \<Rightarrow> None
         | Some (Stop, s1) \<Rightarrow> Some (1, Stop, s1)
         | Some (Continue, s1) \<Rightarrow>
             map_option (\<lambda>(n, r, s2). (Suc n, r, s2))
               (popAndExecuteTasks_spec E use rest s1)))"

section \<open>The processor between two tasks\<close>

text \<open>
  A device that is not lost: no call answers \<open>VK_ERROR_DEVICE_LOST\<close>, and a fence or a
  primary buffer that was created successfully has a non-null handle.
\<close>

definition device_not_lost :: "env \<Rightarrow> bool" where
  "device_not_lost E =
     ((\<forall>evs. fst (vkCreateFence E evs) \<noteq> VK_ERROR_DEVICE_LOST \<and>
             (fst (vkCreateFence E evs) = VK_SUCCESS \<longrightarrow> valid (snd (vkCreateFence E evs)))) \<and>
      (\<forall>evs pt. fst (poolAllocate E evs pt) \<noteq> VK_ERROR_DEVICE_LOST \<and>
             (fst (poolAllocate E evs pt) = VK_SUCCESS \<longrightarrow> valid (snd (poolAllocate E evs pt)))) \<and>
      (\<forall>evs h t. vkWaitForFences E evs h t \<noteq> VK_ERROR_DEVICE_LOST) \<and>
      (\<forall>evs h. vkEndCommandBuffer E evs h \<noteq> VK_ERROR_DEVICE_LOST) \<and>
      (\<forall>evs si f. vkQueueSubmit E evs si f \<noteq> VK_ERROR_DEVICE_LOST) \<and>
      (\<forall>evs p. vkQueuePresentKHR E evs p \<noteq> VK_ERROR_DEVICE_LOST) \<and>
      (\<forall>evs h. poolCollect E evs h \<noteq> VK_ERROR_DEVICE_LOST) \<and>
      (\<forall>evs c. flushToPrimary E evs c \<noteq> VK_ERROR_DEVICE_LOST))"

text \<open>
  The serials of one index grow along the rings and on into the task queue. The serial of
  a task is the one its submission will carry, the status of a task the swapchain status
  its present will write to.
\<close>

definition serialOrder :: "QueueSerial \<Rightarrow> QueueSerial \<Rightarrow> bool" where
  "serialOrder a b = (qsIndex a = qsIndex b \<longrightarrow> qsSerial a \<le> qsSerial b)"

fun taskSerial :: "CommandProcessorTask \<Rightarrow> QueueSerial list" where
  "taskSerial (FlushAndQueueSubmit semaphore externalFence pt priority q) = [q]"
| "taskSerial (OneOffQueueSubmit commandBuffer pt priority waitSemaphore stageMask q) = [q]"
| "taskSerial task = []"

fun taskPresent :: "CommandProcessorTask \<Rightarrow> nat list" where
  "taskPresent (Present priority presentInfo status) = [status]"
| "taskPresent task = []"

text \<open>
  A task as the \<open>enqueue...\<close> functions of the processor build it: the semaphores of a
  flush come with as many stage masks, a submission has a valid serial and a protection
  type, an external fence that is given is not null, and a present holds a present info
  as \<open>initPresent\<close> copies it, for one swapchain and without a result array.
\<close>

fun task_ok :: "CommandProcessorTask \<Rightarrow> bool" where
  "task_ok Invalid = False"
| "task_ok (FlushWaitSemaphores pt priority sems masks) =
     (sems \<noteq> [] \<and> length sems = length masks)"
| "task_ok (ProcessOutsideRenderPassCommands pt priority commandBuffer) = True"
| "task_ok (ProcessRenderPassCommands pt priority commandBuffer renderPass fb) = True"
| "task_ok (FlushAndQueueSubmit semaphore externalFence pt priority q) =
     (QueueSerial_valid q \<and> pt \<noteq> InvalidEnum \<and> externalFence \<noteq> Some VK_NULL_HANDLE)"
| "task_ok (OneOffQueueSubmit commandBuffer pt priority waitSemaphore stageMask q) =
     (QueueSerial_valid q \<and> pt \<noteq> InvalidEnum)"
| "task_ok (Present priority presentInfo status) =
     (CommandProcessorTask_copyPresentInfo VkPresentInfoKHR_zero presentInfo =
        Some presentInfo \<and>
      swapchainCount presentInfo = 1 \<and> \<not> hasResults presentInfo)"

text \<open>
  The recorded commands of a priority and protection type: secondary buffers only behind a
  valid primary buffer, and one stage mask for every wait semaphore.
\<close>

definition commandsState_ok :: "CommandsState \<Rightarrow> bool" where
  "commandsState_ok st =
     ((valid (primaryCommands st) \<or> secondaryCommands st = []) \<and>
      length (waitSemaphores st) = length (waitSemaphoreStageMasks st))"

definition commands_ok :: "state \<Rightarrow> bool" where
  "commands_ok s = (\<forall>priority pt. commandsState_ok (mCommandsStateMap s priority pt))"

text \<open>
  The rings between two submissions, with the serials still to be submitted: the counter
  is the number of batches in both rings, the in-flight ring is within its capacity, which
  is positive and at most that of the finished ring, every batch is as submission built it,
  every finished batch is completed, and the serials are in order from the oldest finished
  batch to the last task.
\<close>

definition queue_ok :: "env \<Rightarrow> QueueSerial list \<Rightarrow> state \<Rightarrow> bool" where
  "queue_ok E serials s =
     (mNumAllCommands s = length (mInFlightCommands s) + length (mFinishedCommandBatches s) \<and>
      length (mInFlightCommands s) \<le> kInFlightCommandsLimit E \<and>
      mNumAllCommands s \<le> kMaxFinishedCommandsLimit E \<and>
      0 < kInFlightCommandsLimit E \<and>
      kInFlightCommandsLimit E \<le> kMaxFinishedCommandsLimit E \<and>
      list_all batch_ok (mInFlightCommands s) \<and>
      list_all (\<lambda>b. batch_ok b \<and> serialCompleted (mQueueSerial b) s)
        (mFinishedCommandBatches s) \<and>
      sorted_wrt serialOrder
        (map mQueueSerial (mFinishedCommandBatches s @ mInFlightCommands s) @ serials))"

text \<open>
  The processor with its task queue: the rings are in order with the serials of the tasks,
  the recorded commands and the tasks are well formed, and every present of the queue has
  a swapchain status of its own, which is pending.
\<close>

definition processor_ok :: "env \<Rightarrow> CommandProcessorTask list \<Rightarrow> state \<Rightarrow> bool" where
  "processor_ok E tasks s =
     (queue_ok E (concat (map taskSerial tasks)) s \<and>
      commands_ok s \<and>
      list_all task_ok tasks \<and>
      distinct (concat (map taskPresent tasks)) \<and>
      list_all (\<lambda>status. isPending (swapchainStatus s status))
        (concat (map taskPresent tasks)))"

text \<open>What a submission leaves alone outside the rings.\<close>

definition others :: "state \<Rightarrow> state \<Rightarrow> bool" where
  "others s s1 =
     (mCommandsStateMap s1 = mCommandsStateMap s \<and> swapchainStatus s1 = swapchainStatus s)"

section \<open>A freshly initialised queue and a device that always succeeds\<close>

text \<open>
  The state after the constructors and \<open>CommandQueue::init\<close>: empty rings, zero
  serials, nothing recorded. The device below answers every call with \<open>VK_SUCCESS\<close>
  and hands out fresh non-null handles; the rings are small so that they fill quickly.
\<close>

definition state_after_init :: state where
  "state_after_init =
     \<lparr>mInFlightCommands = [], mFinishedCommandBatches = [], mNumAllCommands = 0,
      mLastSubmittedSerials = (\<lambda>_. kZeroSerial), mLastCompletedSerials = (\<lambda>_. kZeroSerial),
      mFenceRecycler = [], mCommandsStateMap = (\<lambda>_ _. CommandsState_empty),
      mPrimaryCommandPoolMap = (\<lambda>_. []), mErrors = [], mTaskQueue = [],
      mNeedCommandsAndGarbageCleanup = False,
      swapchainStatus = (\<lambda>_. \<lparr>isPending = False, lastPresentResult = VK_SUCCESS\<rparr>),
      events = []\<rparr>"

definition device_ok :: env where
  "device_ok =
     \<lparr>kInFlightCommandsLimit = 2, kMaxFinishedCommandsLimit = 3,
      kMaxCommandProcessorTasksLimit = 2, getMaxFenceWaitTimeNs = 1000,
      queueHandle = (\<lambda>_. 1), isAsyncCommandBufferResetAndGarbageCleanupEnabled = False,
      vkCreateFence = (\<lambda>evs. (VK_SUCCESS, Suc (length evs))),
      vkWaitForFences = (\<lambda>_ _ _. VK_SUCCESS),
      vkGetFenceStatus = (\<lambda>_ _. VK_SUCCESS),
      vkEndCommandBuffer = (\<lambda>_ _. VK_SUCCESS),
      vkQueueSubmit = (\<lambda>_ _ _. VK_SUCCESS),
      vkQueuePresentKHR = (\<lambda>_ _. VK_SUCCESS),
      poolCollect = (\<lambda>_ _. VK_SUCCESS),
      poolAllocate = (\<lambda>evs _. (VK_SUCCESS, Suc (length evs))),
      flushToPrimary = (\<lambda>_ _. VK_SUCCESS)\<rparr>"

text \<open>A device on which every fence wait reports the loss of the device.\<close>

definition device_lost :: env where
  "device_lost = device_ok\<lparr>vkWaitForFences := (\<lambda>_ _ _. VK_ERROR_DEVICE_LOST)\<rparr>"

text \<open>
  Two submissions in flight on index 0: serial 1 with a primary buffer and an internal
  fence, serial 2 without work and without a fence.
\<close>

definition batch_with_fence :: CommandBatch where
  "batch_with_fence =
     CommandBatch_new
       \<lparr>mQueueSerial := \<lparr>qsIndex = 0, qsSerial = 1\<rparr>, mProtectionType := Unprotected,
        mPrimaryCommands := 11, mCommandPoolAccess := True,
        mFence := Some \<lparr>rfFence = 21, rfRecycler = True\<rparr>\<rparr>"

definition batch_without_fence :: CommandBatch where
  "batch_without_fence =
     CommandBatch_new
       \<lparr>mQueueSerial := \<lparr>qsIndex = 0, qsSerial = 2\<rparr>, mProtectionType := Unprotected,
        mCommandPoolAccess := True\<rparr>"

definition state_two_in_flight :: state where
  "state_two_in_flight =
     state_after_init
       \<lparr>mInFlightCommands := [batch_with_fence, batch_without_fence],
        mNumAllCommands := 2,
        mLastSubmittedSerials := (\<lambda>_. kZeroSerial)(0 := 2)\<rparr>"

text \<open>
  Both rings at their limit for \<open>device_ok\<close>: serial 1 finished, serials 2 and 3 in
  flight, three batches in all.
\<close>

definition batch_finished :: CommandBatch where
  "batch_finished =
     CommandBatch_new
       \<lparr>mQueueSerial := \<lparr>qsIndex = 0, qsSerial = 1\<rparr>, mProtectionType := Unprotected,
        mPrimaryCommands := 11, mCommandPoolAccess := True,
        mFence := Some \<lparr>rfFence = 21, rfRecycler = True\<rparr>\<rparr>"

definition batch_in_flight :: CommandBatch where
  "batch_in_flight =
     CommandBatch_new
       \<lparr>mQueueSerial := \<lparr>qsIndex = 0, qsSerial = 2\<rparr>, mProtectionType := Unprotected,
        mPrimaryCommands := 12, mCommandPoolAccess := True,
        mFence := Some \<lparr>rfFence = 22, rfRecycler = True\<rparr>\<rparr>"

definition batch_newest :: CommandBatch where
  "batch_newest =
     CommandBatch_new
       \<lparr>mQueueSerial := \<lparr>qsIndex = 0, qsSerial = 3\<rparr>, mProtectionType := Unprotected,
        mCommandPoolAccess := True\<rparr>"

definition state_rings_full :: state where
  "state_rings_full =
     state_after_init
       \<lparr>mInFlightCommands := [batch_in_flight, batch_newest],
        mFinishedCommandBatches := [batch_finished],
        mNumAllCommands := 3,
        mLastSubmittedSerials := (\<lambda>_. kZeroSerial)(0 := 3),
        mLastCompletedSerials := (\<lambda>_. kZeroSerial)(0 := 1)\<rparr>"

text \<open>A fourth submission on index 0, without work, and the first one.\<close>

definition batch_fourth :: CommandBatch where
  "batch_fourth =
     CommandBatch_new
       \<lparr>mQueueSerial := \<lparr>qsIndex = 0, qsSerial = 4\<rparr>, mProtectionType := Unprotected\<rparr>"

definition batch_first :: CommandBatch where
  "batch_first =
     CommandBatch_new
       \<lparr>mQueueSerial := \<lparr>qsIndex = 0, qsSerial = 1\<rparr>, mProtectionType := Unprotected\<rparr>"

text \<open>
  Recorded work waiting at medium priority: a valid primary buffer in the commands state.
  A device that cannot create fences, and one on which every fence wait times out.
\<close>

definition state_recorded :: state where
  "state_recorded =
     state_after_init
       \<lparr>mCommandsStateMap :=
          (\<lambda>_ _. CommandsState_empty)
            (Medium := (\<lambda>_. CommandsState_empty)
               (Unprotected := CommandsState_empty\<lparr>primaryCommands := 11\<rparr>))\<rparr>"

definition device_no_fences :: env where
  "device_no_fences =
     device_ok\<lparr>vkCreateFence := (\<lambda>_. (VK_ERROR_OUT_OF_HOST_MEMORY, VK_NULL_HANDLE))\<rparr>"

definition device_timeout :: env where
  "device_timeout = device_ok\<lparr>vkWaitForFences := (\<lambda>_ _ _. VK_TIMEOUT)\<rparr>"

text \<open>A device that refuses every submit for lack of memory.\<close>

definition device_submit_fails :: env where
  "device_submit_fails =
     device_ok\<lparr>vkQueueSubmit := (\<lambda>_ _ _. VK_ERROR_OUT_OF_DEVICE_MEMORY)\<rparr>"

text \<open>A device that is lost whenever work is submitted to it.\<close>

definition device_submit_lost :: env where
  "device_submit_lost = device_ok\<lparr>vkQueueSubmit := (\<lambda>_ _ _. VK_ERROR_DEVICE_LOST)\<rparr>"

text \<open>Two errors of the worker waiting to be reported.\<close>

definition state_two_errors :: state where
  "state_two_errors =
     state_after_init
       \<lparr>mErrors :=
          [\<lparr>errorCode = VK_ERROR_OUT_OF_HOST_MEMORY, errFile = ''CommandProcessor.cpp'',
            errFunction = ''submitCommands'', errLine = 1497\<rparr>,
           \<lparr>errorCode = VK_TIMEOUT, errFile = ''CommandProcessor.cpp'',
            errFunction = ''finishOneCommandBatchLocked'', errLine = 1728\<rparr>]\<rparr>"

text \<open>A device on which every present is suboptimal, and a present of one swapchain.\<close>

definition device_suboptimal :: env where
  "device_suboptimal = device_ok\<lparr>vkQueuePresentKHR := (\<lambda>_ _. VK_SUBOPTIMAL_KHR)\<rparr>"

definition present_one :: VkPresentInfoKHR where
  "present_one =
     VkPresentInfoKHR_zero
       \<lparr>presentSType := 1000001001, swapchainCount := 1, swapchain := 31, imageIndex := 0,
        waitSemaphoreCount := 1, presentWaitSemaphore := 51\<rparr>"

text \<open>
  Two submissions on index 0 waiting in the task queue, and the use of the first of them;
  the same queue with the two errors of the worker pending.
\<close>

definition use_first :: ResourceUse where
  "use_first = [\<lparr>qsIndex = 0, qsSerial = 1\<rparr>]"

definition tasks_two :: "CommandProcessorTask list" where
  "tasks_two =
     [FlushAndQueueSubmit VK_NULL_HANDLE None Unprotected Medium \<lparr>qsIndex = 0, qsSerial = 1\<rparr>,
      FlushAndQueueSubmit VK_NULL_HANDLE None Unprotected Medium \<lparr>qsIndex = 0, qsSerial = 2\<rparr>]"

definition state_two_tasks :: state where
  "state_two_tasks = state_recorded\<lparr>mTaskQueue := tasks_two\<rparr>"

definition state_errors_and_tasks :: state where
  "state_errors_and_tasks = state_two_errors\<lparr>mTaskQueue := tasks_two\<rparr>"

section \<open>Properties\<close>

text \<open>The definitions that evaluate a run on a concrete state.\<close>

lemmas batch_defs =
  CommandBatch_setQueueSerial_def CommandBatch_setProtectionType_def
  CommandBatch_setPrimaryCommands_def CommandBatch_setSecondaryCommands_def
  CommandBatch_initFence_def CommandBatch_setExternalFence_def CommandBatch_release_def
  CommandBatch_destroy_def CommandBatch_getQueueSerial_def CommandBatch_getFenceHandle_def
  CommandBatch_getFenceStatus_def CommandBatch_waitFence_def CommandBatch_new_def
  hasFence_def releaseCommandBuffers_def QueueSerial_valid_def QueueSerial_default_def
  kZeroSerial_def

lemmas fence_defs =
  RecyclableFence_init_def RecyclableFence_new_def RecyclableFence_destroy_def
  RecyclableFence_detachRecycler_def SharedFence_reset_def FenceRecycler_fetch_def
  FenceRecycler_recycle_def Recycler_empty_def Recycler_recycle_def Recycler_fetch_def

lemmas queue_defs =
  FixedQueue_full_def FixedQueue_push_def FixedQueue_front_def FixedQueue_back_def
  FixedQueue_pop_def setLastSubmitted_def setLastCompleted_def pushInFlightBatchLocked_def
  moveInFlightBatchToFinishedQueueLocked_def onCommandBatchFinishedLocked_def
  popFinishedBatchLocked_def popInFlightBatchLocked_def checkOneCommandBatchLocked_def
  finishOneCommandBatchLocked_def serialCompleted_def releaseFinishedCommandsLocked_body_def
  releaseFinishedCommandsLocked.simps ANGLE_VK_TRY_def Context_handleError_def
  CommandPoolAccess_destroyPrimaryCommandBuffer_def PersistentCommandPool_collect_def
  CommandPoolAccess_collectPrimaryCommandBuffer_def

lemmas submit_defs =
  InitializeSubmitInfo_def CommandsState_empty_def
  CommandPoolAccess_getCommandsAndWaitSemaphores_def queueSubmitLocked_makeRoom_def
  queueSubmitLocked_reclaim_def queueSubmitLocked_throttle_def queueSubmitLocked_submit_def
  queueSubmitLocked_def DeviceScoped_exit_def needsQueueSubmit_def submitCommands_scope_def
  CommandQueue_submitCommands_def VkSubmitInfo_zero_def

lemmas example_defs =
  state_after_init_def device_ok_def device_lost_def batch_with_fence_def
  batch_without_fence_def state_two_in_flight_def batch_finished_def batch_in_flight_def
  batch_newest_def state_rings_full_def batch_first_def batch_fourth_def state_recorded_def
  device_no_fences_def device_timeout_def device_submit_fails_def device_submit_lost_def
  state_two_errors_def
  device_suboptimal_def
  present_one_def use_first_def tasks_two_def state_two_tasks_def state_errors_and_tasks_def

lemmas effect_defs =
  emit_def lock_def unlock_def with_lock_def with_lock_void_def valid_def VK_NULL_HANDLE_def
  thisFile_def

subsection \<open>FenceRecycler: fetch followed by recycle\<close>




subsection \<open>CommandBatch: at most one fence source\<close>

lemma applyBatchOp_fence:
  "applyBatchOp E ctx x (b, s) = Some (b1, s1) \<Longrightarrow> atMostOneFenceSource b \<Longrightarrow>
   atMostOneFenceSource b1"
  by (cases x)
     (auto simp: atMostOneFenceSource_def CommandBatch_setQueueSerial_def
        CommandBatch_setProtectionType_def CommandBatch_setPrimaryCommands_def
        CommandBatch_setSecondaryCommands_def CommandBatch_initFence_def
        CommandBatch_setExternalFence_def CommandBatch_release_def CommandBatch_destroy_def
        hasFence_def Let_def
      split: if_splits option.splits bool.splits prod.splits Result.splits)

lemma runBatchOps_fence:
  "runBatchOps E ctx xs bs = Some bs1 \<Longrightarrow> atMostOneFenceSource (fst bs) \<Longrightarrow>
   atMostOneFenceSource (fst bs1)"
proof (induction xs arbitrary: bs)
  case Nil
  then show ?case by simp
next
  case (Cons x xs)
  then obtain bs2 where step: "applyBatchOp E ctx x bs = Some bs2"
    and rest: "runBatchOps E ctx xs bs2 = Some bs1"
    by (auto split: option.splits)
  from step Cons.prems(2) have "atMostOneFenceSource (fst bs2)"
    using applyBatchOp_fence [of E ctx x "fst bs" "snd bs" "fst bs2" "snd bs2"] by simp
  with Cons.IH rest show ?case by blast
qed

text \<open>
  C8: every CommandBatch holds at most one fence source at all times (an internal recycled
  fence, an external fence, or neither): whatever list of its operations has run from the
  default-constructed batch without a failed assertion, the internal and the external
  fence are not both set. \<open>initFence\<close> and \<open>setExternalFence\<close> fail their assertion
  as soon as either fence is already set, \<open>hasFence\<close> fails its assertion on a batch
  with both, and move assignment, which swaps two batches, keeps the property of both.
\<close>

theorem batch_fence_source:
  "(runBatchOps E ctx xs (CommandBatch_new, s) = Some (b, s1) \<longrightarrow> atMostOneFenceSource b) \<and>
   (mFence c \<noteq> None \<or> mExternalFence c \<noteq> None \<longrightarrow>
      CommandBatch_initFence E c s = None \<and> CommandBatch_setExternalFence x c = None) \<and>
   (\<not> atMostOneFenceSource d \<longrightarrow> hasFence d = None) \<and>
   (atMostOneFenceSource c \<and> atMostOneFenceSource c' \<longrightarrow>
      atMostOneFenceSource (fst (CommandBatch_move_assign c c')) \<and>
      atMostOneFenceSource (snd (CommandBatch_move_assign c c')))"
proof (intro conjI impI)
  assume "runBatchOps E ctx xs (CommandBatch_new, s) = Some (b, s1)"
  then show "atMostOneFenceSource b"
    using runBatchOps_fence [of E ctx xs "(CommandBatch_new, s)" "(b, s1)"]
    by (simp add: atMostOneFenceSource_def CommandBatch_new_def)
next
  assume "mFence c \<noteq> None \<or> mExternalFence c \<noteq> None"
  then show "CommandBatch_initFence E c s = None"
    by (auto simp: CommandBatch_initFence_def hasFence_def split: option.splits bool.splits)
next
  assume "mFence c \<noteq> None \<or> mExternalFence c \<noteq> None"
  then show "CommandBatch_setExternalFence x c = None"
    by (auto simp: CommandBatch_setExternalFence_def hasFence_def split: option.splits bool.splits)
next
  assume "\<not> atMostOneFenceSource d"
  then show "hasFence d = None"
    by (simp add: atMostOneFenceSource_def hasFence_def)
qed (simp_all add: CommandBatch_move_assign_def)

theorem batch_fence_source_witness:
  "runBatchOps device_ok ExternalContext
     [OpSetQueueSerial \<lparr>qsIndex = 0, qsSerial = 1\<rparr>, OpInitFence, OpRelease,
      OpSetExternalFence (Some 5)] (CommandBatch_new, state_after_init) =
     Some (CommandBatch_new\<lparr>mQueueSerial := \<lparr>qsIndex = 0, qsSerial = 1\<rparr>,
                             mExternalFence := Some 5\<rparr>,
           state_after_init
             \<lparr>mFenceRecycler := [3],
              events := [Lock FenceRecyclerMutex, Unlock FenceRecyclerMutex, CallCreateFence,
                         Lock FenceRecyclerMutex, Unlock FenceRecyclerMutex]\<rparr>) \<and>
   atMostOneFenceSource
     (CommandBatch_new\<lparr>mQueueSerial := \<lparr>qsIndex = 0, qsSerial = 1\<rparr>, mExternalFence := Some 5\<rparr>) \<and>
   mExternalFence (CommandBatch_new\<lparr>mExternalFence := Some 5\<rparr>) \<noteq> None \<and>
   CommandBatch_initFence device_ok (CommandBatch_new\<lparr>mExternalFence := Some 5\<rparr>)
     state_after_init = None \<and>
   CommandBatch_setExternalFence (Some 6) (CommandBatch_new\<lparr>mExternalFence := Some 5\<rparr>) = None \<and>
   \<not> atMostOneFenceSource
       (CommandBatch_new\<lparr>mFence := Some \<lparr>rfFence = 3, rfRecycler = True\<rparr>,
                          mExternalFence := Some 5\<rparr>) \<and>
   hasFence (CommandBatch_new\<lparr>mFence := Some \<lparr>rfFence = 3, rfRecycler = True\<rparr>,
                               mExternalFence := Some 5\<rparr>) = None \<and>
   atMostOneFenceSource (CommandBatch_new\<lparr>mExternalFence := Some 5\<rparr>) \<and>
   atMostOneFenceSource CommandBatch_new \<and>
   atMostOneFenceSource
     (fst (CommandBatch_move_assign (CommandBatch_new\<lparr>mExternalFence := Some 5\<rparr>)
        CommandBatch_new))"
proof -
  have run: "runBatchOps device_ok ExternalContext
     [OpSetQueueSerial \<lparr>qsIndex = 0, qsSerial = 1\<rparr>, OpInitFence, OpRelease,
      OpSetExternalFence (Some 5)] (CommandBatch_new, state_after_init) =
     Some (CommandBatch_new\<lparr>mQueueSerial := \<lparr>qsIndex = 0, qsSerial = 1\<rparr>,
                             mExternalFence := Some 5\<rparr>,
           state_after_init
             \<lparr>mFenceRecycler := [3],
              events := [Lock FenceRecyclerMutex, Unlock FenceRecyclerMutex, CallCreateFence,
                         Lock FenceRecyclerMutex, Unlock FenceRecyclerMutex]\<rparr>)"
    by (simp add: batch_defs fence_defs effect_defs state_after_init_def device_ok_def)
  have both: "\<not> atMostOneFenceSource
       (CommandBatch_new\<lparr>mFence := Some \<lparr>rfFence = 3, rfRecycler = True\<rparr>,
                          mExternalFence := Some 5\<rparr>)"
    by (simp add: atMostOneFenceSource_def)
  have one: "atMostOneFenceSource (CommandBatch_new\<lparr>mExternalFence := Some 5\<rparr>)"
    "atMostOneFenceSource CommandBatch_new"
    by (simp_all add: atMostOneFenceSource_def CommandBatch_new_def)
  show ?thesis
    using run both one
      batch_fence_source [of device_ok ExternalContext
        "[OpSetQueueSerial \<lparr>qsIndex = 0, qsSerial = 1\<rparr>, OpInitFence, OpRelease,
          OpSetExternalFence (Some 5)]" state_after_init
        "CommandBatch_new\<lparr>mQueueSerial := \<lparr>qsIndex = 0, qsSerial = 1\<rparr>,
                           mExternalFence := Some 5\<rparr>"
        "state_after_init
             \<lparr>mFenceRecycler := [3],
              events := [Lock FenceRecyclerMutex, Unlock FenceRecyclerMutex, CallCreateFence,
                         Lock FenceRecyclerMutex, Unlock FenceRecyclerMutex]\<rparr>"
        "CommandBatch_new\<lparr>mExternalFence := Some 5\<rparr>" "Some 6"
        "CommandBatch_new\<lparr>mFence := Some \<lparr>rfFence = 3, rfRecycler = True\<rparr>,
                          mExternalFence := Some 5\<rparr>" CommandBatch_new]
    by simp
qed

subsection \<open>Device loss\<close>

lemma handleDeviceLost_body_step:
  assumes "mInFlightCommands s = b # rest" and "batch_ok b" and "0 < mNumAllCommands s"
    and "\<forall>evs f. vkWaitForFences E evs f (getMaxFenceWaitTimeNs E) = VK_SUCCESS \<or>
                 vkWaitForFences E evs f (getMaxFenceWaitTimeNs E) = VK_ERROR_DEVICE_LOST"
  shows "handleDeviceLost_body E s =
           Some (s\<lparr>mInFlightCommands := rest,
                   mNumAllCommands := mNumAllCommands s - 1,
                   mLastCompletedSerials := completeAll [b] (mLastCompletedSerials s),
                   events := events s @ deviceLost_batch_events E b\<rparr>)"
proof -
  have w: "vkWaitForFences E evs f (getMaxFenceWaitTimeNs E) = VK_SUCCESS \<or>
      vkWaitForFences E evs f (getMaxFenceWaitTimeNs E) = VK_ERROR_DEVICE_LOST" for evs f
    using assms(4) by blast
  show ?thesis
  proof (cases "mFence b")
    case None
    show ?thesis
    proof (cases "mExternalFence b")
      case None
      with \<open>mFence b = None\<close> assms(1-3) show ?thesis
        by (simp add: handleDeviceLost_body_def batch_ok_def deviceLost_batch_events_def
          completeAll_def FixedQueue_front_def FixedQueue_pop_def popInFlightBatchLocked_def
          setLastCompleted_def CommandPoolAccess_destroyPrimaryCommandBuffer_def
          batch_defs fence_defs effect_defs Let_def)
    next
      case (Some h)
      with \<open>mFence b = None\<close> assms(1-3) w [of "events s" h] show ?thesis
        by (auto simp: handleDeviceLost_body_def batch_ok_def deviceLost_batch_events_def
          completeAll_def FixedQueue_front_def FixedQueue_pop_def popInFlightBatchLocked_def
          setLastCompleted_def CommandPoolAccess_destroyPrimaryCommandBuffer_def
          batch_defs fence_defs effect_defs Let_def)
    qed
  next
    case (Some rf)
    with assms(1-3) w [of "events s" "rfFence rf"] show ?thesis
      by (auto simp: handleDeviceLost_body_def batch_ok_def deviceLost_batch_events_def
          completeAll_def FixedQueue_front_def FixedQueue_pop_def popInFlightBatchLocked_def
          setLastCompleted_def CommandPoolAccess_destroyPrimaryCommandBuffer_def
          batch_defs fence_defs effect_defs Let_def split: if_splits)
  qed
qed

lemma handleDeviceLost_loop_all:
  assumes dev: "\<forall>evs f. vkWaitForFences E evs f (getMaxFenceWaitTimeNs E) = VK_SUCCESS \<or>
                 vkWaitForFences E evs f (getMaxFenceWaitTimeNs E) = VK_ERROR_DEVICE_LOST"
  shows "mInFlightCommands s = bs \<Longrightarrow> list_all batch_ok bs \<Longrightarrow>
     length bs \<le> mNumAllCommands s \<Longrightarrow>
     handleDeviceLost_loop E s =
       Some (s\<lparr>mInFlightCommands := [],
               mNumAllCommands := mNumAllCommands s - length bs,
               mLastCompletedSerials := completeAll bs (mLastCompletedSerials s),
               events := events s @ concat (map (deviceLost_batch_events E) bs)\<rparr>)"
proof (induction bs arbitrary: s)
  case Nil
  then show ?case
    by (subst handleDeviceLost_loop.simps) (simp add: completeAll_def)
next
  case (Cons b bs)
  let ?s1 = "s\<lparr>mInFlightCommands := bs,
                 mNumAllCommands := mNumAllCommands s - 1,
                 mLastCompletedSerials := completeAll [b] (mLastCompletedSerials s),
                 events := events s @ deviceLost_batch_events E b\<rparr>"
  from Cons.prems have step: "handleDeviceLost_body E s = Some ?s1"
    using handleDeviceLost_body_step [OF _ _ _ dev, of s b bs] by simp
  from Cons.prems have rest: "handleDeviceLost_loop E ?s1 =
       Some (?s1\<lparr>mInFlightCommands := [],
               mNumAllCommands := mNumAllCommands ?s1 - length bs,
               mLastCompletedSerials := completeAll bs (mLastCompletedSerials ?s1),
               events := events ?s1 @ concat (map (deviceLost_batch_events E) bs)\<rparr>)"
    by (intro Cons.IH) simp_all
  from Cons.prems(1) step rest show ?case
    by (subst handleDeviceLost_loop.simps) (simp add: completeAll_def)
qed

lemma rings_foldl:
  "(\<And>t x. ringsKept t (f t x)) \<Longrightarrow> ringsKept s (foldl f s xs)"
proof (induction xs arbitrary: s)
  case Nil
  show ?case by (simp add: ringsKept_refl)
next
  case (Cons x xs)
  have "ringsKept s (f s x)" by (rule Cons.prems)
  moreover have "ringsKept (f s x) (foldl f (f s x) xs)" by (rule Cons.IH) (rule Cons.prems)
  ultimately show ?case by (simp add: ringsKept_trans)
qed

lemma rings_CommandsState_destroy: "ringsKept s (CommandsState_destroy pr pt s)"
  by (simp add: CommandsState_destroy_def Let_def ringsKept_def releaseCommandBuffers_def emit_def)

lemma rings_CommandPoolAccess_destroy: "ringsKept s (CommandPoolAccess_destroy s)"
proof -
  let ?f = "\<lambda>s' (pr, pt). CommandsState_destroy pr pt s'"
  let ?g = "\<lambda>s' pt. PersistentCommandPool_destroy pt s'"
  let ?ps = "[(pr, pt). pr \<leftarrow> [Low, Medium, High], pt \<leftarrow> [Unprotected, Protected]]"
  let ?s1 = "lock CmdPoolMutex s"
  let ?s2 = "foldl ?f ?s1 ?ps"
  let ?s3 = "foldl ?g ?s2 [Unprotected, Protected]"
  have a: "ringsKept t (?f t x)" for t x
    by (cases x) (simp add: rings_CommandsState_destroy)
  have b: "ringsKept t (?g t pt)" for t pt
    by (simp add: PersistentCommandPool_destroy_def ringsKept_def emit_def)
  have "ringsKept s ?s1" by (rule ringsKept_lock)
  also have "ringsKept ?s1 ?s2" by (rule rings_foldl) (rule a)
  also have "ringsKept ?s2 ?s3" by (rule rings_foldl) (rule b)
  also have "ringsKept ?s3 (unlock CmdPoolMutex ?s3)" by (rule ringsKept_unlock)
  finally show ?thesis
    by (simp add: CommandPoolAccess_destroy_def Let_def)
qed

lemma rings_FenceRecycler_destroy: "ringsKept s (FenceRecycler_destroy s)"
proof -
  let ?s1 = "lock FenceRecyclerMutex s"
  let ?s2 = "foldl (\<lambda>s' f. emit (CallDestroyFence f) s') ?s1 (mFenceRecycler ?s1)"
  have "ringsKept s ?s1" by (rule ringsKept_lock)
  also have "ringsKept ?s1 ?s2" by (rule rings_foldl) (rule ringsKept_emit)
  finally have "ringsKept s ?s2" .
  then show ?thesis
    by (simp add: FenceRecycler_destroy_def Let_def ringsKept_def unlock_def emit_def)
qed

lemma rings_DeviceQueueMap_destroy: "ringsKept s (DeviceQueueMap_destroy E s)"
  unfolding DeviceQueueMap_destroy_def
  by (rule rings_foldl) (simp add: ringsKept_refl ringsKept_emit)

lemma CommandQueue_destroy_locked_infinite:
  assumes "mInFlightCommands s = []" and "mFinishedCommandBatches s = []"
    and "mNumAllCommands s = 0"
  shows "\<exists>s1. CommandQueue_destroy_locked E s = Some s1 \<and>
           mLastCompletedSerials s1 = (\<lambda>_. Serial_Infinite)"
proof -
  let ?s2 = "(DeviceQueueMap_destroy E s)\<lparr>mLastCompletedSerials := (\<lambda>_. Serial_Infinite)\<rparr>"
  let ?s4 = "FenceRecycler_destroy (CommandPoolAccess_destroy ?s2)"
  have "ringsKept ?s2 ?s4"
    by (rule ringsKept_trans [OF rings_CommandPoolAccess_destroy rings_FenceRecycler_destroy])
  moreover have "mInFlightCommands ?s2 = [] \<and> mFinishedCommandBatches ?s2 = [] \<and>
      mNumAllCommands ?s2 = 0"
    using assms rings_DeviceQueueMap_destroy [of s E] by (simp add: ringsKept_def)
  ultimately show ?thesis
    by (simp add: CommandQueue_destroy_locked_def Let_def ringsKept_def)
qed

text \<open>
  C3: on device loss, \<open>CommandQueue::handleDeviceLost\<close> takes the three locks,
  and for every in-flight batch, oldest first, waits on its fence if it has one, with the
  renderer's maximal wait time and going on after \<open>VK_SUCCESS\<close> as well as after
  \<open>VK_ERROR_DEVICE_LOST\<close>, stores the batch's serial to last-completed, and destroys
  the batch directly: the primary buffer is destroyed and the pools stay as they were,
  the internal fence is destroyed and the recycler's free list stays as it was. The ring
  is empty afterwards and the locks are released. \<open>CommandQueue::destroy\<close> sets every
  last-completed serial to infinite, so every resource use counts as finished.
\<close>

theorem deviceLost_drain:
  assumes "list_all batch_ok (mInFlightCommands s)"
    and "length (mInFlightCommands s) \<le> mNumAllCommands s"
    and "\<forall>evs f. vkWaitForFences E evs f (getMaxFenceWaitTimeNs E) = VK_SUCCESS \<or>
                 vkWaitForFences E evs f (getMaxFenceWaitTimeNs E) = VK_ERROR_DEVICE_LOST"
    and "mInFlightCommands t = []" and "mFinishedCommandBatches t = []"
    and "mNumAllCommands t = 0"
  shows "(\<exists>s1. CommandQueue_handleDeviceLost E s = Some s1 \<and>
            events s1 =
              events s @
              [Lock QueueSubmitMutex, Lock CmdCompleteMutex, Lock CmdReleaseMutex] @
              concat (map (deviceLost_batch_events E) (mInFlightCommands s)) @
              [Unlock CmdReleaseMutex, Unlock CmdCompleteMutex, Unlock QueueSubmitMutex] \<and>
            mInFlightCommands s1 = [] \<and>
            mLastCompletedSerials s1 =
              completeAll (mInFlightCommands s) (mLastCompletedSerials s) \<and>
            mFenceRecycler s1 = mFenceRecycler s \<and>
            mPrimaryCommandPoolMap s1 = mPrimaryCommandPoolMap s \<and>
            mFinishedCommandBatches s1 = mFinishedCommandBatches s \<and>
            mNumAllCommands s1 = mNumAllCommands s - length (mInFlightCommands s)) \<and>
         (\<exists>t1. CommandQueue_destroy E t = Some t1 \<and>
            (\<forall>i. mLastCompletedSerials t1 i = Serial_Infinite) \<and>
            (\<forall>use. hasResourceUseFinished use t1))"
proof
  let ?s0 = "lock CmdReleaseMutex (lock CmdCompleteMutex (lock QueueSubmitMutex s))"
  have "handleDeviceLost_loop E ?s0 =
       Some (?s0\<lparr>mInFlightCommands := [],
               mNumAllCommands := mNumAllCommands ?s0 - length (mInFlightCommands s),
               mLastCompletedSerials :=
                 completeAll (mInFlightCommands s) (mLastCompletedSerials ?s0),
               events := events ?s0 @
                 concat (map (deviceLost_batch_events E) (mInFlightCommands s))\<rparr>)"
    using assms(1,2)
    by (intro handleDeviceLost_loop_all [OF assms(3)]) (simp_all add: lock_def emit_def)
  then show "\<exists>s1. CommandQueue_handleDeviceLost E s = Some s1 \<and>
            events s1 =
              events s @
              [Lock QueueSubmitMutex, Lock CmdCompleteMutex, Lock CmdReleaseMutex] @
              concat (map (deviceLost_batch_events E) (mInFlightCommands s)) @
              [Unlock CmdReleaseMutex, Unlock CmdCompleteMutex, Unlock QueueSubmitMutex] \<and>
            mInFlightCommands s1 = [] \<and>
            mLastCompletedSerials s1 =
              completeAll (mInFlightCommands s) (mLastCompletedSerials s) \<and>
            mFenceRecycler s1 = mFenceRecycler s \<and>
            mPrimaryCommandPoolMap s1 = mPrimaryCommandPoolMap s \<and>
            mFinishedCommandBatches s1 = mFinishedCommandBatches s \<and>
            mNumAllCommands s1 = mNumAllCommands s - length (mInFlightCommands s)"
    by (simp add: CommandQueue_handleDeviceLost_def with_lock_void_def lock_def unlock_def
        emit_def)
next
  let ?t0 = "lock CmdReleaseMutex (lock CmdCompleteMutex (lock QueueSubmitMutex t))"
  have "\<exists>t1. CommandQueue_destroy_locked E ?t0 = Some t1 \<and>
           mLastCompletedSerials t1 = (\<lambda>_. Serial_Infinite)"
    using assms(4-6)
    by (intro CommandQueue_destroy_locked_infinite) (simp_all add: lock_def emit_def)
  then obtain t1 where t1: "CommandQueue_destroy_locked E ?t0 = Some t1"
    and inf: "mLastCompletedSerials t1 = (\<lambda>_. Serial_Infinite)"
    by blast
  have fin: "hasResourceUseFinished use
      (unlock QueueSubmitMutex (unlock CmdCompleteMutex (unlock CmdReleaseMutex t1)))" for use
    by (simp add: hasResourceUseFinished_def unlock_def emit_def inf Serial_Infinite_def
        list_all_iff)
  from t1 inf fin show "\<exists>t1. CommandQueue_destroy E t = Some t1 \<and>
            (\<forall>i. mLastCompletedSerials t1 i = Serial_Infinite) \<and>
            (\<forall>use. hasResourceUseFinished use t1)"
    by (simp add: CommandQueue_destroy_def with_lock_void_def unlock_def emit_def)
qed

theorem deviceLost_drain_witness:
  "list_all batch_ok (mInFlightCommands state_two_in_flight) \<and>
   length (mInFlightCommands state_two_in_flight) \<le> mNumAllCommands state_two_in_flight \<and>
   (\<forall>evs f. vkWaitForFences device_lost evs f (getMaxFenceWaitTimeNs device_lost) = VK_SUCCESS \<or>
      vkWaitForFences device_lost evs f (getMaxFenceWaitTimeNs device_lost) =
        VK_ERROR_DEVICE_LOST) \<and>
   (\<exists>s1. CommandQueue_handleDeviceLost device_lost state_two_in_flight = Some s1 \<and>
      events s1 =
        [Lock QueueSubmitMutex, Lock CmdCompleteMutex, Lock CmdReleaseMutex,
         CallWaitForFence 21 1000, StoreLastCompleted \<lparr>qsIndex = 0, qsSerial = 1\<rparr>,
         Lock CmdPoolMutex, CallDestroyPrimary 11, Unlock CmdPoolMutex, CallDestroyFence 21,
         StoreLastCompleted \<lparr>qsIndex = 0, qsSerial = 2\<rparr>,
         Unlock CmdReleaseMutex, Unlock CmdCompleteMutex, Unlock QueueSubmitMutex] \<and>
      mInFlightCommands s1 = [] \<and> mLastCompletedSerials s1 0 = 2 \<and>
      mFenceRecycler s1 = [] \<and> mPrimaryCommandPoolMap s1 Unprotected = [] \<and>
      mNumAllCommands s1 = 0) \<and>
   (\<exists>t1. CommandQueue_destroy device_lost state_after_init = Some t1 \<and>
      mLastCompletedSerials t1 7 = Serial_Infinite \<and>
      hasResourceUseFinished [\<lparr>qsIndex = 7, qsSerial = 99\<rparr>] t1)"
proof -
  have h1: "list_all batch_ok (mInFlightCommands state_two_in_flight)"
    by (simp add: state_two_in_flight_def state_after_init_def batch_with_fence_def
        batch_without_fence_def batch_ok_def batch_defs effect_defs)
  have h2: "length (mInFlightCommands state_two_in_flight) \<le>
      mNumAllCommands state_two_in_flight"
    by (simp add: state_two_in_flight_def state_after_init_def)
  have h3: "\<forall>evs f. vkWaitForFences device_lost evs f (getMaxFenceWaitTimeNs device_lost) =
        VK_SUCCESS \<or>
      vkWaitForFences device_lost evs f (getMaxFenceWaitTimeNs device_lost) =
        VK_ERROR_DEVICE_LOST"
    by (simp add: device_lost_def)
  have h4: "mInFlightCommands state_after_init = []"
    "mFinishedCommandBatches state_after_init = []" "mNumAllCommands state_after_init = 0"
    by (simp_all add: state_after_init_def)
  from deviceLost_drain [OF h1 h2 h3 h4] h1 h2 h3 show ?thesis
    by (auto simp: state_two_in_flight_def state_after_init_def batch_with_fence_def
        batch_without_fence_def deviceLost_batch_events_def completeAll_def device_lost_def
        device_ok_def batch_defs effect_defs)
qed

subsection \<open>Submission: backpressure\<close>

lemmas quiet_defs =
  quiet_def leavesSubmitLock_def isQueueSubmit_def isFenceAcquire_def noPush_def isPush_def
  isStoreSubmitted_def

lemma appends_mono: "appends P s s1 \<Longrightarrow> (\<And>e. P e \<Longrightarrow> Q e) \<Longrightarrow> appends Q s s1"
  by (auto simp: appends_def list_all_iff)

lemma appends_refl: "appends P s s"
  by (simp add: appends_def)

lemma appends_trans [trans]: "appends P s s1 \<Longrightarrow> appends P s1 s2 \<Longrightarrow> appends P s s2"
  by (auto simp: appends_def)

lemma appends_emit: "P e \<Longrightarrow> appends P s (emit e s)"
  by (simp add: appends_def emit_def)

lemma appends_field:
  "events s1 = events s \<Longrightarrow> appends P s s1"
  by (simp add: appends_def)

lemma leaves_Context_handleError:
  "Context_handleError ctx code file func ln s = Some s1 \<Longrightarrow> appends quiet s s1"
  by (auto simp: Context_handleError_def CommandProcessor_handleError_def
        CommandProcessor_handleDeviceLost_def appends_def quiet_defs emit_def lock_def
        unlock_def Let_def
      split: Context.splits if_splits option.splits)

lemma leaves_ANGLE_VK_TRY:
  "ANGLE_VK_TRY ctx func ln r s = Some (res, s1) \<Longrightarrow> appends quiet s s1"
  by (auto simp: ANGLE_VK_TRY_def appends_refl dest: leaves_Context_handleError split: if_splits)

lemma leaves_waitFence:
  "CommandBatch_waitFence E b t s = Some (r, s1) \<Longrightarrow> appends quiet s s1"
  by (auto simp: CommandBatch_waitFence_def appends_emit quiet_defs
      split: option.splits)

lemma leaves_onCommandBatchFinishedLocked:
  "onCommandBatchFinishedLocked E s = Some s1 \<Longrightarrow> appends quiet s s1"
  by (auto simp: onCommandBatchFinishedLocked_def moveInFlightBatchToFinishedQueueLocked_def
        setLastCompleted_def appends_def quiet_defs emit_def
      split: option.splits if_splits)

lemma leaves_finishOne:
  assumes "finishOneCommandBatchLocked E ctx t s = Some (r, s1)"
  shows "appends quiet s s1"
  using assms
  by (auto simp: finishOneCommandBatchLocked_def
      split: option.splits bool.splits prod.splits Result.splits
      dest!: leaves_waitFence leaves_ANGLE_VK_TRY leaves_onCommandBatchFinishedLocked
      intro: appends_trans)

lemma leaves_release:
  "CommandBatch_release E ctx b s = Some (r, b1, s1) \<Longrightarrow> appends quiet s s1"
  by (auto simp: CommandBatch_release_def CommandPoolAccess_collectPrimaryCommandBuffer_def
        PersistentCommandPool_collect_def ANGLE_VK_TRY_def Context_handleError_def
        CommandProcessor_handleError_def CommandProcessor_handleDeviceLost_def
        SharedFence_reset_def RecyclableFence_destroy_def FenceRecycler_recycle_def
        releaseCommandBuffers_def appends_def quiet_defs emit_def lock_def unlock_def
        Let_def
      split: option.splits if_splits prod.splits Result.splits Context.splits)

lemma release_body_post:
  assumes "releaseFinishedCommandsLocked_body E ctx s = Some (r, s1)"
  shows "mInFlightCommands s1 = mInFlightCommands s \<and>
         mLastCompletedSerials s1 = mLastCompletedSerials s \<and>
         mLastSubmittedSerials s1 = mLastSubmittedSerials s \<and>
         appends quiet s s1 \<and>
         (r = Continue \<longrightarrow>
            mFinishedCommandBatches s1 = tl (mFinishedCommandBatches s) \<and>
            mFinishedCommandBatches s \<noteq> [] \<and>
            mNumAllCommands s1 + 1 = mNumAllCommands s)"
proof -
  from assms obtain b rest q r0 b1 s0 where
    fin: "mFinishedCommandBatches s = b # rest"
    and rel: "CommandBatch_release E ctx b s = Some (r0, b1, s0)"
    and res: "(if r0 = Stop
               then Some (Stop, s0\<lparr>mFinishedCommandBatches := b1 # tl (mFinishedCommandBatches s0)\<rparr>)
               else map_option (\<lambda>s3. (Continue, s3))
                      (popFinishedBatchLocked
                         (s0\<lparr>mFinishedCommandBatches := b1 # tl (mFinishedCommandBatches s0)\<rparr>)))
              = Some (r, s1)"
    by (auto simp: releaseFinishedCommandsLocked_body_def Let_def
        split: list.splits option.splits if_splits prod.splits)
  from rel have fr: "frame s s0" by (rule frame_CommandBatch_release)
  from rel have ap: "appends quiet s s0" by (rule leaves_release)
  from res fr ap fin show ?thesis
    by (auto simp: popFinishedBatchLocked_def FixedQueue_pop_def frame_def ringsKept_def appends_def
        split: if_splits)
qed

lemma release_loop_post:
  "releaseFinishedCommandsLocked E ctx s = Some (r, s1) \<Longrightarrow>
     mInFlightCommands s1 = mInFlightCommands s \<and>
     mLastCompletedSerials s1 = mLastCompletedSerials s \<and>
     mLastSubmittedSerials s1 = mLastSubmittedSerials s \<and>
     appends quiet s s1 \<and>
     (r = Continue \<longrightarrow>
        mFinishedCommandBatches s1 = [] \<and>
        mNumAllCommands s1 + length (mFinishedCommandBatches s) = mNumAllCommands s)"
proof (induction E ctx s arbitrary: r s1 rule: releaseFinishedCommandsLocked.induct)
  case (1 E ctx s)
  show ?case
  proof (cases "mFinishedCommandBatches s = []")
    case True
    with "1.prems" show ?thesis
      by (simp add: releaseFinishedCommandsLocked.simps [of E ctx s] appends_refl)
  next
    case False
    with "1.prems" obtain r0 s0 where body: "releaseFinishedCommandsLocked_body E ctx s = Some (r0, s0)"
      by (auto simp: releaseFinishedCommandsLocked.simps [of E ctx s] split: option.splits)
    note post = release_body_post [OF body]
    show ?thesis
    proof (cases r0)
      case Stop
      with body False "1.prems" have "r = Stop" "s1 = s0"
        by (simp_all add: releaseFinishedCommandsLocked.simps [of E ctx s])
      with post show ?thesis by simp
    next
      case Continue
      with body False "1.prems" have rec: "releaseFinishedCommandsLocked E ctx s0 = Some (r, s1)"
        by (simp add: releaseFinishedCommandsLocked.simps [of E ctx s])
      from "1.IH" [OF False body refl Continue rec] post Continue show ?thesis
        by (cases "mFinishedCommandBatches s") (auto intro: appends_trans)
    qed
  qed
qed



lemma finishOne_post:
  assumes "finishOneCommandBatchLocked E ctx t s = Some (r, s1)"
  shows "(\<exists>b rest. mInFlightCommands s = b # rest \<and>
            (\<forall>h. CommandBatch_getFenceHandle b = Some h \<longrightarrow>
               (\<exists>evs. events s1 = events s @ CallWaitForFence h t # evs)) \<and>
            (r = Continue \<longrightarrow>
               mInFlightCommands s1 = rest \<and>
               mFinishedCommandBatches s1 = mFinishedCommandBatches s @ [b] \<and>
               mNumAllCommands s1 = mNumAllCommands s \<and>
               mLastSubmittedSerials s1 = mLastSubmittedSerials s \<and>
               mLastCompletedSerials s1 =
                 (mLastCompletedSerials s)
                   (qsIndex (mQueueSerial b) := qsSerial (mQueueSerial b))))"
proof -
  from assms obtain b rest where inf: "mInFlightCommands s = b # rest"
    by (auto simp: finishOneCommandBatchLocked_def FixedQueue_front_def
        split: list.splits option.splits)
  have fin: "onCommandBatchFinishedLocked E s0 = Some s2 \<Longrightarrow> mInFlightCommands s0 = b # rest \<Longrightarrow>
      mInFlightCommands s2 = rest \<and>
      mFinishedCommandBatches s2 = mFinishedCommandBatches s0 @ [b] \<and>
      mNumAllCommands s2 = mNumAllCommands s0 \<and>
      mLastSubmittedSerials s2 = mLastSubmittedSerials s0 \<and>
      mLastCompletedSerials s2 =
        (mLastCompletedSerials s0)(qsIndex (mQueueSerial b) := qsSerial (mQueueSerial b)) \<and>
      (\<exists>evs. events s2 = events s0 @ evs)" for s0 s2
    by (auto simp: onCommandBatchFinishedLocked_def moveInFlightBatchToFinishedQueueLocked_def
        FixedQueue_front_def FixedQueue_push_def FixedQueue_pop_def setLastCompleted_def
        emit_def CommandBatch_getQueueSerial_def
        split: option.splits if_splits)
  show ?thesis
  proof (cases "hasFence b")
    case None
    with assms inf show ?thesis
      by (simp add: finishOneCommandBatchLocked_def FixedQueue_front_def)
  next
    case (Some hf)
    show ?thesis
    proof (cases hf)
      case False
      with Some assms inf obtain s2 where "onCommandBatchFinishedLocked E s = Some s2"
        "r = Continue" "s1 = s2"
        by (auto simp: finishOneCommandBatchLocked_def FixedQueue_front_def)
      with fin [of s s2] inf Some False show ?thesis
        by (auto simp: CommandBatch_getFenceHandle_def)
    next
      case True
      with Some assms inf obtain status s0 r0 s2 where
        w: "CommandBatch_waitFence E b t s = Some (status, s0)"
        and tr: "ANGLE_VK_TRY ctx ''finishOneCommandBatchLocked'' 1728 status s0 = Some (r0, s2)"
        and res: "(case r0 of Stop \<Rightarrow> Some (Stop, s2)
                   | Continue \<Rightarrow> map_option (\<lambda>s3. (Continue, s3))
                       (onCommandBatchFinishedLocked E s2)) = Some (r, s1)"
        by (auto simp: finishOneCommandBatchLocked_def FixedQueue_front_def
            split: option.splits prod.splits Result.splits)
      from w have ev0: "\<forall>h. CommandBatch_getFenceHandle b = Some h \<longrightarrow>
          events s0 = events s @ [CallWaitForFence h t]"
        and fr0: "frame s s0"
        by (auto simp: CommandBatch_waitFence_def emit_def frame_def ringsKept_def split: option.splits)
      from tr have fr2: "frame s0 s2" by (rule frame_ANGLE_VK_TRY)
      from tr have "appends quiet s0 s2" by (rule leaves_ANGLE_VK_TRY)
      then obtain evs2 where ev2: "events s2 = events s0 @ evs2"
        by (auto simp: appends_def)
      show ?thesis
      proof (cases r0)
        case Stop
        with res have "r = Stop" "s1 = s2" by simp_all
        with inf ev0 ev2 show ?thesis by auto
      next
        case Continue
        with res obtain s3 where on: "onCommandBatchFinishedLocked E s2 = Some s3"
          and "r = Continue" "s1 = s3"
          by auto
        from inf fr0 fr2 have "mInFlightCommands s2 = b # rest"
          by (simp add: frame_def ringsKept_def)
        from fin [OF on this] fr0 fr2 inf ev0 ev2 \<open>s1 = s3\<close> show ?thesis
          by (auto simp: frame_def ringsKept_def)
      qed
    qed
  qed
qed


lemma with_lock_Some:
  assumes "with_lock m body s = Some (r, s1)"
  obtains s0 where "body (lock m s) = Some (r, s0)" and "s1 = unlock m s0"
  using assms by (auto simp: with_lock_def split: option.splits)

lemma appends_lock: "m \<noteq> QueueSubmitMutex \<Longrightarrow> appends quiet s (lock m s)"
  by (cases m) (simp_all add: lock_def appends_emit quiet_defs)

lemma appends_unlock: "m \<noteq> QueueSubmitMutex \<Longrightarrow> appends quiet s (unlock m s)"
  by (cases m) (simp_all add: unlock_def appends_emit quiet_defs)

lemma makeRoom_post:
  assumes "queueSubmitLocked_makeRoom E ctx s = Some (r, s1)"
  shows "appends quiet s s1 \<and>
         mNumAllCommands s1 = mNumAllCommands s \<and>
         mLastSubmittedSerials s1 = mLastSubmittedSerials s \<and>
         (\<not> FixedQueue_full (kInFlightCommandsLimit E) (mInFlightCommands s) \<longrightarrow>
            s1 = s \<and> r = Continue) \<and>
         (r = Stop \<longrightarrow> mInFlightCommands s1 = mInFlightCommands s) \<and>
         (FixedQueue_full (kInFlightCommandsLimit E) (mInFlightCommands s) \<longrightarrow>
            (\<exists>b rest evs. mInFlightCommands s = b # rest \<and>
               events s1 = events s @ Lock CmdCompleteMutex # evs \<and>
               (\<forall>h. CommandBatch_getFenceHandle b = Some h \<longrightarrow>
                  (\<exists>evs1. evs = CallWaitForFence h (getMaxFenceWaitTimeNs E) # evs1)) \<and>
               (r = Continue \<longrightarrow>
                  mInFlightCommands s1 = rest \<and>
                  mFinishedCommandBatches s1 = mFinishedCommandBatches s @ [b] \<and>
                  mLastCompletedSerials s1 =
                    (mLastCompletedSerials s)
                      (qsIndex (mQueueSerial b) := qsSerial (mQueueSerial b)))))"
proof (cases "FixedQueue_full (kInFlightCommandsLimit E) (mInFlightCommands s)")
  case False
  with assms show ?thesis
    by (simp add: queueSubmitLocked_makeRoom_def appends_refl)
next
  case True
  let ?s0 = "lock CmdCompleteMutex s"
  from True assms obtain s2 where
    fin: "finishOneCommandBatchLocked E ctx (getMaxFenceWaitTimeNs E) ?s0 = Some (r, s2)"
    and s1: "s1 = unlock CmdCompleteMutex s2"
    by (auto simp: queueSubmitLocked_makeRoom_def lock_def emit_def elim!: with_lock_Some)
  from finishOne_post [OF fin] obtain b rest where
    inf: "mInFlightCommands ?s0 = b # rest"
    and ev: "\<forall>h. CommandBatch_getFenceHandle b = Some h \<longrightarrow>
               (\<exists>evs. events s2 = events ?s0 @ CallWaitForFence h (getMaxFenceWaitTimeNs E) # evs)"
    and cont: "r = Continue \<longrightarrow>
               mInFlightCommands s2 = rest \<and>
               mFinishedCommandBatches s2 = mFinishedCommandBatches ?s0 @ [b] \<and>
               mNumAllCommands s2 = mNumAllCommands ?s0 \<and>
               mLastSubmittedSerials s2 = mLastSubmittedSerials ?s0 \<and>
               mLastCompletedSerials s2 =
                 (mLastCompletedSerials ?s0)
                   (qsIndex (mQueueSerial b) := qsSerial (mQueueSerial b))"
    by blast
  have ap: "appends quiet s s1"
  proof -
    have "appends quiet s ?s0" by (simp add: appends_lock)
    also have "appends quiet ?s0 s2" using fin by (rule leaves_finishOne)
    also have "appends quiet s2 s1" unfolding s1 by (simp add: appends_unlock)
    finally show ?thesis .
  qed
  from leaves_finishOne [OF fin] obtain evs0 where evs0: "events s2 = events ?s0 @ evs0"
    by (auto simp: appends_def)
  have num: "mNumAllCommands s1 = mNumAllCommands s \<and>
      mLastSubmittedSerials s1 = mLastSubmittedSerials s \<and>
      (r = Stop \<longrightarrow> mInFlightCommands s1 = mInFlightCommands s)"
  proof (cases r)
    case Continue
    with cont s1 show ?thesis by (simp add: unlock_def lock_def emit_def)
  next
    case Stop
    with fin have "frame ?s0 s2"
      by (auto simp: finishOneCommandBatchLocked_def
          split: option.splits bool.splits prod.splits Result.splits
          dest!: frame_waitFence frame_ANGLE_VK_TRY intro: frame_trans)
    with s1 show ?thesis by (simp add: frame_def ringsKept_def unlock_def lock_def emit_def)
  qed
  have "events s1 = events s @ Lock CmdCompleteMutex # (evs0 @ [Unlock CmdCompleteMutex])"
    using evs0 s1 by (simp add: unlock_def lock_def emit_def)
  moreover have "\<forall>h. CommandBatch_getFenceHandle b = Some h \<longrightarrow>
      (\<exists>evs1. evs0 @ [Unlock CmdCompleteMutex] =
         CallWaitForFence h (getMaxFenceWaitTimeNs E) # evs1)"
    using ev evs0 by auto
  ultimately show ?thesis
    using True ap num inf cont s1
    by (auto simp: unlock_def lock_def emit_def)
qed

lemma reclaim_post:
  assumes "queueSubmitLocked_reclaim E ctx s = Some (r, s1)"
  shows "appends quiet s s1 \<and>
         mInFlightCommands s1 = mInFlightCommands s \<and>
         mLastSubmittedSerials s1 = mLastSubmittedSerials s \<and>
         mLastCompletedSerials s1 = mLastCompletedSerials s \<and>
         (mNumAllCommands s \<noteq> kMaxFinishedCommandsLimit E \<longrightarrow> s1 = s) \<and>
         (mNumAllCommands s = kMaxFinishedCommandsLimit E \<longrightarrow>
            (\<exists>evs. events s1 = events s @ Lock CmdReleaseMutex # evs) \<and>
            (r = Continue \<longrightarrow>
               mFinishedCommandBatches s1 = [] \<and>
               mNumAllCommands s1 + length (mFinishedCommandBatches s) = mNumAllCommands s))"
proof (cases "mNumAllCommands s = kMaxFinishedCommandsLimit E")
  case False
  with assms show ?thesis
    by (simp add: queueSubmitLocked_reclaim_def appends_refl)
next
  case True
  let ?s0 = "lock CmdReleaseMutex s"
  from True assms obtain s2 where
    rel: "releaseFinishedCommandsLocked E ctx ?s0 = Some (r, s2)"
    and s1: "s1 = unlock CmdReleaseMutex s2"
    by (auto simp: queueSubmitLocked_reclaim_def elim!: with_lock_Some)
  note post = release_loop_post [OF rel]
  from post obtain evs0 where evs0: "events s2 = events ?s0 @ evs0"
    by (auto simp: appends_def)
  have ap: "appends quiet s s1"
  proof -
    have "appends quiet s ?s0" by (simp add: appends_lock)
    also have "appends quiet ?s0 s2" using post by simp
    also have "appends quiet s2 s1" unfolding s1 by (simp add: appends_unlock)
    finally show ?thesis .
  qed
  have "events s1 = events s @ Lock CmdReleaseMutex # (evs0 @ [Unlock CmdReleaseMutex])"
    using evs0 s1 by (simp add: unlock_def lock_def emit_def)
  with True ap post s1 show ?thesis
    by (auto simp: unlock_def lock_def emit_def)
qed

lemma throttle_post:
  assumes "queueSubmitLocked_throttle E ctx s = Some (r, s1)"
  shows "appends quiet s s1 \<and>
     (FixedQueue_full (kInFlightCommandsLimit E) (mInFlightCommands s) \<longrightarrow>
        (\<exists>b rest evs. mInFlightCommands s = b # rest \<and>
           events s1 = events s @ Lock CmdCompleteMutex # evs \<and>
           (\<forall>h. CommandBatch_getFenceHandle b = Some h \<longrightarrow>
              (\<exists>evs1. evs = CallWaitForFence h (getMaxFenceWaitTimeNs E) # evs1)))) \<and>
     (r = Continue \<and> mNumAllCommands s = kMaxFinishedCommandsLimit E \<longrightarrow>
        (\<exists>pre post. events s1 = events s @ pre @ Lock CmdReleaseMutex # post) \<and>
        mFinishedCommandBatches s1 = []) \<and>
     (r = Continue \<longrightarrow>
        \<not> FixedQueue_full (kInFlightCommandsLimit E) (mInFlightCommands s1) \<and>
        mNumAllCommands s1 < kMaxFinishedCommandsLimit E) \<and>
     mLastSubmittedSerials s1 = mLastSubmittedSerials s \<and>
     (mNumAllCommands s = kMaxFinishedCommandsLimit E \<longrightarrow>
        (\<exists>pre post. events s1 = events s @ pre @ Lock CmdReleaseMutex # post) \<or>
        r = Stop \<and> FixedQueue_full (kInFlightCommandsLimit E) (mInFlightCommands s)) \<and>
     (\<exists>n. mInFlightCommands s1 = drop n (mInFlightCommands s))"
proof -
  from assms obtain rA sA where A: "queueSubmitLocked_makeRoom E ctx s = Some (rA, sA)"
    by (auto simp: queueSubmitLocked_throttle_def split: option.splits)
  note pa = makeRoom_post [OF A]
  show ?thesis
  proof (cases rA)
    case Stop
    with A assms have "r = Stop" "s1 = sA"
      by (simp_all add: queueSubmitLocked_throttle_def)
    moreover from pa Stop have "mInFlightCommands sA = drop 0 (mInFlightCommands s)"
      by simp
    then have "\<exists>n. mInFlightCommands sA = drop n (mInFlightCommands s)" ..
    ultimately show ?thesis using pa Stop by auto
  next
    case Continue
    with A assms obtain rB sB where
      nf: "\<not> FixedQueue_full (kInFlightCommandsLimit E) (mInFlightCommands sA)"
      and B: "queueSubmitLocked_reclaim E ctx sA = Some (rB, sB)"
      by (auto simp: queueSubmitLocked_throttle_def split: option.splits if_splits)
    note pb = reclaim_post [OF B]
    from A Continue B nf assms have res: "r = rB" "s1 = sB"
      and lt: "rB = Continue \<longrightarrow> mNumAllCommands sB < kMaxFinishedCommandsLimit E"
      by (auto simp: queueSubmitLocked_throttle_def split: Result.splits if_splits)
    from pa pb have ap: "appends quiet s sB"
      by (blast intro: appends_trans)
    from pa obtain evsA where evsA: "events sA = events s @ evsA"
      by (auto simp: appends_def)
    from pb obtain evsB where evsB: "events sB = events sA @ evsB"
      by (auto simp: appends_def)
    have full: "FixedQueue_full (kInFlightCommandsLimit E) (mInFlightCommands s) \<longrightarrow>
        (\<exists>b rest evs. mInFlightCommands s = b # rest \<and>
           events sB = events s @ Lock CmdCompleteMutex # evs \<and>
           (\<forall>h. CommandBatch_getFenceHandle b = Some h \<longrightarrow>
              (\<exists>evs1. evs = CallWaitForFence h (getMaxFenceWaitTimeNs E) # evs1)))"
    proof
      assume "FixedQueue_full (kInFlightCommandsLimit E) (mInFlightCommands s)"
      with pa obtain b rest evs where
        "mInFlightCommands s = b # rest"
        "events sA = events s @ Lock CmdCompleteMutex # evs"
        "\<forall>h. CommandBatch_getFenceHandle b = Some h \<longrightarrow>
              (\<exists>evs1. evs = CallWaitForFence h (getMaxFenceWaitTimeNs E) # evs1)"
        by blast
      with evsB show "\<exists>b rest evs. mInFlightCommands s = b # rest \<and>
           events sB = events s @ Lock CmdCompleteMutex # evs \<and>
           (\<forall>h. CommandBatch_getFenceHandle b = Some h \<longrightarrow>
              (\<exists>evs1. evs = CallWaitForFence h (getMaxFenceWaitTimeNs E) # evs1))"
        by (intro exI [of _ b] exI [of _ rest] exI [of _ "evs @ evsB"]) auto
    qed
    have rel: "rB = Continue \<and> mNumAllCommands s = kMaxFinishedCommandsLimit E \<longrightarrow>
        (\<exists>pre post. events sB = events s @ pre @ Lock CmdReleaseMutex # post) \<and>
        mFinishedCommandBatches sB = []"
    proof
      assume a: "rB = Continue \<and> mNumAllCommands s = kMaxFinishedCommandsLimit E"
      with pa have "mNumAllCommands sA = kMaxFinishedCommandsLimit E" by simp
      with pb a obtain evs where "events sB = events sA @ Lock CmdReleaseMutex # evs"
        and "mFinishedCommandBatches sB = []"
        by blast
      with evsA show "(\<exists>pre post. events sB = events s @ pre @ Lock CmdReleaseMutex # post) \<and>
        mFinishedCommandBatches sB = []"
        by auto
    qed
    have lockR: "mNumAllCommands s = kMaxFinishedCommandsLimit E \<longrightarrow>
        (\<exists>pre post. events sB = events s @ pre @ Lock CmdReleaseMutex # post)"
    proof
      assume a: "mNumAllCommands s = kMaxFinishedCommandsLimit E"
      with pa have "mNumAllCommands sA = kMaxFinishedCommandsLimit E" by simp
      with pb obtain evs where "events sB = events sA @ Lock CmdReleaseMutex # evs"
        by blast
      with evsA show "\<exists>pre post. events sB = events s @ pre @ Lock CmdReleaseMutex # post"
        by auto
    qed
    have "mInFlightCommands sA = drop (if FixedQueue_full (kInFlightCommandsLimit E)
        (mInFlightCommands s) then 1 else 0) (mInFlightCommands s)"
      using pa Continue by auto
    with pb have "mInFlightCommands sB = drop (if FixedQueue_full (kInFlightCommandsLimit E)
        (mInFlightCommands s) then 1 else 0) (mInFlightCommands s)"
      by simp
    then have dr: "\<exists>n. mInFlightCommands sB = drop n (mInFlightCommands s)" ..
    from ap full rel lt nf pa pb res lockR dr show ?thesis
      by simp
  qed
qed


lemma frame_queueSubmitLocked_submit:
  "queueSubmitLocked_submit E ctx priority si batch s = Some (r, s1) \<Longrightarrow> frame s s1"
  by (auto simp: queueSubmitLocked_submit_def frame_def ringsKept_def emit_def
      split: if_splits option.splits prod.splits Result.splits
      dest!: frame_ANGLE_VK_TRY)

lemma appends_events:
  "appends P s s1 \<Longrightarrow> \<exists>evs. events s1 = events s @ evs \<and> list_all P evs"
  by (simp add: appends_def)

lemma quiet_leaves: "list_all quiet evs \<Longrightarrow> list_all leavesSubmitLock evs"
  by (simp add: list_all_iff quiet_def)

lemma quiet_noPush: "list_all quiet evs \<Longrightarrow> list_all noPush evs"
  by (simp add: list_all_iff quiet_def)

lemma quiet_noSubmit: "list_all quiet evs \<Longrightarrow> list_all (\<lambda>e. \<not> isQueueSubmit e) evs"
  by (simp add: list_all_iff quiet_def)

lemma push_post:
  assumes "pushInFlightBatchLocked E b s = Some s1"
  shows "events s1 = events s @ [PushInFlight (mQueueSerial b)] \<and>
         mInFlightCommands s1 = mInFlightCommands s @ [b] \<and>
         mLastSubmittedSerials s1 = mLastSubmittedSerials s"
  using assms
  by (auto simp: pushInFlightBatchLocked_def FixedQueue_push_def emit_def Let_def
      split: option.splits if_splits)

lemma queueSubmitLocked_submit_post:
  assumes "queueSubmitLocked_submit E ctx priority si b s = Some (r, s1)"
  shows "(\<not> sTypeIsSubmitInfo si \<longrightarrow> s1 = s \<and> r = Continue) \<and>
         (sTypeIsSubmitInfo si \<longrightarrow>
            (\<exists>f evs. events s1 = events s @ CallQueueSubmit priority si f # evs \<and>
               list_all quiet evs \<and>
               (r = Stop \<longrightarrow> vkQueueSubmit E (events s) si f \<noteq> VK_SUCCESS)))"
proof (cases "sTypeIsSubmitInfo si")
  case False
  with assms show ?thesis by (simp add: queueSubmitLocked_submit_def)
next
  case True
  with assms obtain f where f: "CommandBatch_getFenceHandle b = Some f"
    by (auto simp: queueSubmitLocked_submit_def split: option.splits)
  let ?s0 = "emit (CallQueueSubmit priority si f) s"
  let ?res = "vkQueueSubmit E (events s) si f"
  from assms True f obtain r0 sT where
    t: "ANGLE_VK_TRY ctx ''queueSubmitLocked'' 1602 ?res ?s0 = Some (r0, sT)"
    and res: "r = r0"
      "s1 = (if r0 = Stop then sT
             else (case mExternalFence b of None \<Rightarrow> sT | Some h \<Rightarrow> emit (CallExportFd h) sT))"
    by (auto simp: queueSubmitLocked_submit_def split: option.splits if_splits Result.splits)
  from leaves_ANGLE_VK_TRY [OF t] obtain evs where
    evs: "events sT = events ?s0 @ evs" "list_all quiet evs"
    by (auto simp: appends_def)
  from t have ne: "r0 = Stop \<longrightarrow> ?res \<noteq> VK_SUCCESS"
    by (auto simp: ANGLE_VK_TRY_def split: if_splits)
  show ?thesis
  proof (cases r0)
    case Stop
    with res evs ne True show ?thesis by (simp add: emit_def)
  next
    case Continue
    show ?thesis
    proof (cases "mExternalFence b")
      case None
      with Continue res evs True show ?thesis by (simp add: emit_def)
    next
      case (Some h)
      with Continue res evs have
        "events s1 = events s @ CallQueueSubmit priority si f # (evs @ [CallExportFd h])"
        "list_all quiet (evs @ [CallExportFd h])"
        by (simp_all add: emit_def quiet_defs)
      with Continue res True show ?thesis by blast
    qed
  qed
qed

text \<open>
  A run of \<open>queueSubmitLocked\<close>, whatever it returns: up to a state \<open>s2\<close> it has
  neither pushed nor stored a serial, and it has left the submit mutex alone. A run that
  returns \<open>Stop\<close> ends in \<open>s2\<close>; a run that returns \<open>Continue\<close> pushes the batch in
  \<open>s2\<close> and stores the serial.
\<close>

lemma queueSubmitLocked_run:
  assumes run: "queueSubmitLocked E ctx priority si b q s = Some (r, b1, s1)"
  obtains pre s2 where
    "events s2 = events s @ pre"
    and "list_all leavesSubmitLock pre" and "list_all noPush pre"
    and "\<not> sTypeIsSubmitInfo si \<longrightarrow> list_all quiet pre"
    and "sTypeIsSubmitInfo si \<and> r = Continue \<longrightarrow>
           (\<exists>f. CallQueueSubmit priority si f \<in> set pre)"
    and "r = Stop \<longrightarrow> list_all quiet pre \<or>
           (\<exists>a f c. pre = a @ CallQueueSubmit priority si f # c \<and> list_all quiet a \<and>
              list_all quiet c \<and> vkQueueSubmit E (events s @ a) si f \<noteq> VK_SUCCESS)"
    and "FixedQueue_full (kInFlightCommandsLimit E) (mInFlightCommands s) \<longrightarrow>
           (\<exists>b0 rest evs. mInFlightCommands s = b0 # rest \<and>
              pre = Lock CmdCompleteMutex # evs \<and>
              (\<forall>h. CommandBatch_getFenceHandle b0 = Some h \<longrightarrow>
                 (\<exists>evs1. evs = CallWaitForFence h (getMaxFenceWaitTimeNs E) # evs1)))"
    and "mNumAllCommands s = kMaxFinishedCommandsLimit E \<longrightarrow>
           Lock CmdReleaseMutex \<in> set pre \<or>
           r = Stop \<and> FixedQueue_full (kInFlightCommandsLimit E) (mInFlightCommands s)"
    and "mLastSubmittedSerials s2 = mLastSubmittedSerials s"
    and "\<exists>n. mInFlightCommands s2 = drop n (mInFlightCommands s)"
    and "r = Stop \<longrightarrow> s1 = s2 \<and> b1 = b"
    and "r = Continue \<longrightarrow>
           \<not> FixedQueue_full (kInFlightCommandsLimit E) (mInFlightCommands s2) \<and>
           mNumAllCommands s2 < kMaxFinishedCommandsLimit E \<and>
           (mNumAllCommands s = kMaxFinishedCommandsLimit E \<longrightarrow>
              mFinishedCommandBatches s2 = []) \<and>
           b1 = CommandBatch_new \<and>
           (\<exists>s2'. pushInFlightBatchLocked E b s2 = Some s2' \<and>
              s1 = setLastSubmitted q s2')"
proof -
  from run obtain rA sA where th: "queueSubmitLocked_throttle E ctx s = Some (rA, sA)"
    by (auto simp: queueSubmitLocked_def split: option.splits)
  note pt = throttle_post [OF th]
  from pt obtain evsA where evA: "events sA = events s @ evsA" and qA: "list_all quiet evsA"
    by (auto simp: appends_def)
  have fullA: "FixedQueue_full (kInFlightCommandsLimit E) (mInFlightCommands s) \<longrightarrow>
      (\<exists>b0 rest evs. mInFlightCommands s = b0 # rest \<and> evsA = Lock CmdCompleteMutex # evs \<and>
         (\<forall>h. CommandBatch_getFenceHandle b0 = Some h \<longrightarrow>
            (\<exists>evs1. evs = CallWaitForFence h (getMaxFenceWaitTimeNs E) # evs1)))"
    using pt evA by auto
  have relA: "mNumAllCommands s = kMaxFinishedCommandsLimit E \<longrightarrow>
      Lock CmdReleaseMutex \<in> set evsA \<or>
      rA = Stop \<and> FixedQueue_full (kInFlightCommandsLimit E) (mInFlightCommands s)"
  proof
    assume "mNumAllCommands s = kMaxFinishedCommandsLimit E"
    with pt have "(\<exists>pre post. events sA = events s @ pre @ Lock CmdReleaseMutex # post) \<or>
        rA = Stop \<and> FixedQueue_full (kInFlightCommandsLimit E) (mInFlightCommands s)"
      by blast
    then show "Lock CmdReleaseMutex \<in> set evsA \<or>
      rA = Stop \<and> FixedQueue_full (kInFlightCommandsLimit E) (mInFlightCommands s)"
    proof
      assume "\<exists>pre post. events sA = events s @ pre @ Lock CmdReleaseMutex # post"
      then obtain pre post where "events sA = events s @ pre @ Lock CmdReleaseMutex # post"
        by blast
      with evA have "evsA = pre @ Lock CmdReleaseMutex # post" by simp
      then show ?thesis by simp
    next
      assume "rA = Stop \<and> FixedQueue_full (kInFlightCommandsLimit E) (mInFlightCommands s)"
      then show ?thesis ..
    qed
  qed
  have lsA: "mLastSubmittedSerials sA = mLastSubmittedSerials s"
    using pt by simp
  have drA: "\<exists>n. mInFlightCommands sA = drop n (mInFlightCommands s)"
    using pt by simp
  have contA: "rA = Continue \<longrightarrow>
      \<not> FixedQueue_full (kInFlightCommandsLimit E) (mInFlightCommands sA) \<and>
      mNumAllCommands sA < kMaxFinishedCommandsLimit E \<and>
      (mNumAllCommands s = kMaxFinishedCommandsLimit E \<longrightarrow> mFinishedCommandBatches sA = [])"
    using pt by simp
  show thesis
  proof (cases rA)
    case Stop
    with th run have res: "r = Stop" "s1 = sA" "b1 = b"
      by (simp_all add: queueSubmitLocked_def)
    show thesis
    proof (rule that [of sA evsA])
      show "events sA = events s @ evsA" by (rule evA)
      show "list_all leavesSubmitLock evsA" using qA by (rule quiet_leaves)
      show "list_all noPush evsA" using qA by (rule quiet_noPush)
      show "\<not> sTypeIsSubmitInfo si \<longrightarrow> list_all quiet evsA" using qA by simp
      show "sTypeIsSubmitInfo si \<and> r = Continue \<longrightarrow>
           (\<exists>f. CallQueueSubmit priority si f \<in> set evsA)" using res by simp
      show "r = Stop \<longrightarrow> list_all quiet evsA \<or>
           (\<exists>a f c. evsA = a @ CallQueueSubmit priority si f # c \<and> list_all quiet a \<and>
              list_all quiet c \<and> vkQueueSubmit E (events s @ a) si f \<noteq> VK_SUCCESS)"
        using qA by simp
      show "FixedQueue_full (kInFlightCommandsLimit E) (mInFlightCommands s) \<longrightarrow>
           (\<exists>b0 rest evs. mInFlightCommands s = b0 # rest \<and>
              evsA = Lock CmdCompleteMutex # evs \<and>
              (\<forall>h. CommandBatch_getFenceHandle b0 = Some h \<longrightarrow>
                 (\<exists>evs1. evs = CallWaitForFence h (getMaxFenceWaitTimeNs E) # evs1)))"
        by (rule fullA)
      show "mNumAllCommands s = kMaxFinishedCommandsLimit E \<longrightarrow>
           Lock CmdReleaseMutex \<in> set evsA \<or>
           r = Stop \<and> FixedQueue_full (kInFlightCommandsLimit E) (mInFlightCommands s)"
        using relA res Stop by simp
      show "mLastSubmittedSerials sA = mLastSubmittedSerials s" by (rule lsA)
      show "\<exists>n. mInFlightCommands sA = drop n (mInFlightCommands s)" by (rule drA)
      show "r = Stop \<longrightarrow> s1 = sA \<and> b1 = b" using res by simp
      show "r = Continue \<longrightarrow>
           \<not> FixedQueue_full (kInFlightCommandsLimit E) (mInFlightCommands sA) \<and>
           mNumAllCommands sA < kMaxFinishedCommandsLimit E \<and>
           (mNumAllCommands s = kMaxFinishedCommandsLimit E \<longrightarrow>
              mFinishedCommandBatches sA = []) \<and>
           b1 = CommandBatch_new \<and>
           (\<exists>s2'. pushInFlightBatchLocked E b sA = Some s2' \<and>
              s1 = setLastSubmitted q s2')"
        using res by simp
    qed
  next
    case Continue
    with th run obtain rB sB where
      su: "queueSubmitLocked_submit E ctx priority si b sA = Some (rB, sB)"
      by (auto simp: queueSubmitLocked_def split: option.splits)
    note ps = queueSubmitLocked_submit_post [OF su]
    from frame_queueSubmitLocked_submit [OF su] have fr: "frame sA sB" .
    from th su Continue run have
      stop: "rB = Stop \<longrightarrow> r = Stop \<and> s1 = sB \<and> b1 = b"
      and cont: "rB = Continue \<longrightarrow> r = Continue \<and> b1 = CommandBatch_new \<and>
        (\<exists>s2'. pushInFlightBatchLocked E b sB = Some s2' \<and> s1 = setLastSubmitted q s2')"
      by (auto simp: queueSubmitLocked_def split: option.splits Result.splits)
    have rr: "r = rB" using stop cont by (cases rB) simp_all
    define evsS where "evsS = drop (length (events sA)) (events sB)"
    have evB: "events sB = events sA @ evsS"
      and shape: "(\<not> sTypeIsSubmitInfo si \<longrightarrow> evsS = [] \<and> rB = Continue) \<and>
        (sTypeIsSubmitInfo si \<longrightarrow>
           (\<exists>f evs. evsS = CallQueueSubmit priority si f # evs \<and> list_all quiet evs \<and>
              (rB = Stop \<longrightarrow> vkQueueSubmit E (events sA) si f \<noteq> VK_SUCCESS)))"
      using ps by (auto simp: evsS_def)
    have lvS: "list_all leavesSubmitLock evsS" and npS: "list_all noPush evsS"
      using shape
      by (cases "sTypeIsSubmitInfo si"; auto simp: list_all_iff quiet_defs)+
    show thesis
    proof (rule that [of sB "evsA @ evsS"])
      show "events sB = events s @ evsA @ evsS" using evA evB by simp
      show "list_all leavesSubmitLock (evsA @ evsS)"
        using quiet_leaves [OF qA] lvS by simp
      show "list_all noPush (evsA @ evsS)"
        using quiet_noPush [OF qA] npS by simp
      show "\<not> sTypeIsSubmitInfo si \<longrightarrow> list_all quiet (evsA @ evsS)"
        using qA shape by auto
      show "sTypeIsSubmitInfo si \<and> r = Continue \<longrightarrow>
           (\<exists>f. CallQueueSubmit priority si f \<in> set (evsA @ evsS))"
        using shape by auto
      show "r = Stop \<longrightarrow> list_all quiet (evsA @ evsS) \<or>
           (\<exists>a f c. evsA @ evsS = a @ CallQueueSubmit priority si f # c \<and> list_all quiet a \<and>
              list_all quiet c \<and> vkQueueSubmit E (events s @ a) si f \<noteq> VK_SUCCESS)"
      proof
        assume "r = Stop"
        with rr shape obtain f evs where
          "evsS = CallQueueSubmit priority si f # evs" "list_all quiet evs"
          "vkQueueSubmit E (events sA) si f \<noteq> VK_SUCCESS"
          by (cases "sTypeIsSubmitInfo si") auto
        with qA evA have "evsA @ evsS = evsA @ CallQueueSubmit priority si f # evs \<and>
            list_all quiet evsA \<and> list_all quiet evs \<and>
            vkQueueSubmit E (events s @ evsA) si f \<noteq> VK_SUCCESS"
          by simp
        then show "list_all quiet (evsA @ evsS) \<or>
           (\<exists>a f c. evsA @ evsS = a @ CallQueueSubmit priority si f # c \<and> list_all quiet a \<and>
              list_all quiet c \<and> vkQueueSubmit E (events s @ a) si f \<noteq> VK_SUCCESS)"
          by blast
      qed
      show "FixedQueue_full (kInFlightCommandsLimit E) (mInFlightCommands s) \<longrightarrow>
           (\<exists>b0 rest evs. mInFlightCommands s = b0 # rest \<and>
              evsA @ evsS = Lock CmdCompleteMutex # evs \<and>
              (\<forall>h. CommandBatch_getFenceHandle b0 = Some h \<longrightarrow>
                 (\<exists>evs1. evs = CallWaitForFence h (getMaxFenceWaitTimeNs E) # evs1)))"
      proof
        assume "FixedQueue_full (kInFlightCommandsLimit E) (mInFlightCommands s)"
        with fullA obtain b0 rest evs where
          a: "mInFlightCommands s = b0 # rest" "evsA = Lock CmdCompleteMutex # evs"
          "\<forall>h. CommandBatch_getFenceHandle b0 = Some h \<longrightarrow>
             (\<exists>evs1. evs = CallWaitForFence h (getMaxFenceWaitTimeNs E) # evs1)"
          by blast
        then have "evsA @ evsS = Lock CmdCompleteMutex # (evs @ evsS) \<and>
            (\<forall>h. CommandBatch_getFenceHandle b0 = Some h \<longrightarrow>
               (\<exists>evs1. evs @ evsS = CallWaitForFence h (getMaxFenceWaitTimeNs E) # evs1))"
          by auto
        with a(1) show "\<exists>b0 rest evs. mInFlightCommands s = b0 # rest \<and>
              evsA @ evsS = Lock CmdCompleteMutex # evs \<and>
              (\<forall>h. CommandBatch_getFenceHandle b0 = Some h \<longrightarrow>
                 (\<exists>evs1. evs = CallWaitForFence h (getMaxFenceWaitTimeNs E) # evs1))"
          by blast
      qed
      show "mNumAllCommands s = kMaxFinishedCommandsLimit E \<longrightarrow>
           Lock CmdReleaseMutex \<in> set (evsA @ evsS) \<or>
           r = Stop \<and> FixedQueue_full (kInFlightCommandsLimit E) (mInFlightCommands s)"
        using relA Continue by auto
      show "mLastSubmittedSerials sB = mLastSubmittedSerials s"
        using lsA fr by (simp add: frame_def ringsKept_def)
      show "\<exists>n. mInFlightCommands sB = drop n (mInFlightCommands s)"
        using drA fr by (simp add: frame_def ringsKept_def)
      show "r = Stop \<longrightarrow> s1 = sB \<and> b1 = b"
        using stop cont by (cases rB) simp_all
      show "r = Continue \<longrightarrow>
           \<not> FixedQueue_full (kInFlightCommandsLimit E) (mInFlightCommands sB) \<and>
           mNumAllCommands sB < kMaxFinishedCommandsLimit E \<and>
           (mNumAllCommands s = kMaxFinishedCommandsLimit E \<longrightarrow>
              mFinishedCommandBatches sB = []) \<and>
           b1 = CommandBatch_new \<and>
           (\<exists>s2'. pushInFlightBatchLocked E b sB = Some s2' \<and>
              s1 = setLastSubmitted q s2')"
        using contA Continue fr stop cont
        by (cases rB) (simp_all add: frame_def ringsKept_def)
    qed
  qed
qed




subsection \<open>Submission: the push comes before the serial\<close>

lemma onCommandBatchFinishedLocked_rings:
  assumes "onCommandBatchFinishedLocked E s = Some s1"
  shows "set (mInFlightCommands s) \<subseteq> set (mInFlightCommands s1) \<union> set (mFinishedCommandBatches s1)
         \<and> set (mFinishedCommandBatches s) \<subseteq> set (mFinishedCommandBatches s1)
         \<and> mLastSubmittedSerials s1 = mLastSubmittedSerials s"
  using assms
  by (auto simp: onCommandBatchFinishedLocked_def moveInFlightBatchToFinishedQueueLocked_def
        FixedQueue_front_def FixedQueue_push_def FixedQueue_pop_def setLastCompleted_def
        emit_def
      split: option.splits if_splits list.splits)

lemma interleaved_invariant:
  assumes "interleaved E ctx batch q s0 c"
  shows "(fst c = BeforePush \<longrightarrow>
            mLastSubmittedSerials (fst (snd c)) = mLastSubmittedSerials s0) \<and>
         (fst c \<noteq> BeforePush \<longrightarrow>
            batch \<in> set (mInFlightCommands (fst (snd c))) \<union>
                    set (mFinishedCommandBatches (fst (snd c))) \<union> set (snd (snd c)))"
  using assms
proof (induction rule: interleaved.induct)
  case start
  show ?case by simp
next
  case (push s gone s1)
  then show ?case
    by (auto simp: pushInFlightBatchLocked_def FixedQueue_push_def emit_def Let_def
        split: option.splits if_splits)
next
  case (store s gone)
  then show ?case by (auto simp: setLastSubmitted_def emit_def)
next
  case (complete pos s gone s1)
  from onCommandBatchFinishedLocked_rings [OF complete.hyps(2)] complete.IH
  show ?case by auto
next
  case (release pos s gone f rest s1)
  from release_body_post [OF release.hyps(3)] release.hyps(2) release.IH
  show ?case by auto
next
  case (other pos s gone s1)
  then show ?case by (auto simp: ringsKept_def)
qed

text \<open>
  C1: in \<open>queueSubmitLocked\<close> the batch is pushed onto the in-flight ring before
  \<open>mLastSubmittedSerials\<close> is advanced to its serial. Every run that returns has a
  first part without a push and without a store of a serial, at whose end the tracker is
  what it was at the call and the in-flight ring holds no batch that it did not hold at
  the call. A run that returns \<open>Stop\<close> ends there. A run that returns \<open>Continue\<close>
  goes on with exactly two steps, the push of the batch and then the store of the serial,
  and changes the tracker at the serial's index only. Consequently, with a serial newer
  than the last submitted one, in every interleaving of these two steps with completions
  and releases by other threads, a state in which last-submitted has reached the serial
  has the batch in the in-flight ring, in the finished ring, or among the batches already
  released.
\<close>

theorem push_before_lastSubmitted:
  "(queueSubmitLocked E ctx priority si batch q s = Some (r, b1, s3) \<longrightarrow>
      (\<exists>pre s2. events s2 = events s @ pre \<and> list_all noPush pre \<and>
         mLastSubmittedSerials s2 = mLastSubmittedSerials s \<and>
         (\<exists>n. mInFlightCommands s2 = drop n (mInFlightCommands s)) \<and>
         (r = Stop \<longrightarrow> s3 = s2 \<and> b1 = batch) \<and>
         (r = Continue \<longrightarrow>
            (\<exists>s2'. pushInFlightBatchLocked E batch s2 = Some s2' \<and>
               mLastSubmittedSerials s2' = mLastSubmittedSerials s \<and>
               batch \<in> set (mInFlightCommands s2') \<and>
               s3 = setLastSubmitted q s2' \<and>
               events s3 =
                 events s2 @ [PushInFlight (mQueueSerial batch), StoreLastSubmitted q] \<and>
               batch \<in> set (mInFlightCommands s3) \<and>
               mLastSubmittedSerials s3 =
                 (mLastSubmittedSerials s)(qsIndex q := qsSerial q) \<and>
               interleaved E ctx batch q s2 (AfterStore, s3, []))))) \<and>
   (interleaved E ctx batch q s0 (pos, t, gone) \<and>
    mLastSubmittedSerials s0 (qsIndex q) < qsSerial q \<and>
    qsSerial q \<le> mLastSubmittedSerials t (qsIndex q) \<longrightarrow>
      batch \<in> set (mInFlightCommands t) \<or>
      batch \<in> set (mFinishedCommandBatches t) \<or> batch \<in> set gone)"
proof (intro conjI impI)
  assume run: "queueSubmitLocked E ctx priority si batch q s = Some (r, b1, s3)"
  from run obtain pre s2 where
    ev: "events s2 = events s @ pre"
    and np: "list_all noPush pre"
    and ls: "mLastSubmittedSerials s2 = mLastSubmittedSerials s"
    and dr: "\<exists>n. mInFlightCommands s2 = drop n (mInFlightCommands s)"
    and stop: "r = Stop \<longrightarrow> s3 = s2 \<and> b1 = batch"
    and cont: "r = Continue \<longrightarrow>
           \<not> FixedQueue_full (kInFlightCommandsLimit E) (mInFlightCommands s2) \<and>
           mNumAllCommands s2 < kMaxFinishedCommandsLimit E \<and>
           (mNumAllCommands s = kMaxFinishedCommandsLimit E \<longrightarrow>
              mFinishedCommandBatches s2 = []) \<and>
           b1 = CommandBatch_new \<and>
           (\<exists>s2'. pushInFlightBatchLocked E batch s2 = Some s2' \<and>
              s3 = setLastSubmitted q s2')"
    by (rule queueSubmitLocked_run) blast
  have "r = Continue \<longrightarrow>
      (\<exists>s2'. pushInFlightBatchLocked E batch s2 = Some s2' \<and>
         mLastSubmittedSerials s2' = mLastSubmittedSerials s \<and>
         batch \<in> set (mInFlightCommands s2') \<and>
         s3 = setLastSubmitted q s2' \<and>
         events s3 = events s2 @ [PushInFlight (mQueueSerial batch), StoreLastSubmitted q] \<and>
         batch \<in> set (mInFlightCommands s3) \<and>
         mLastSubmittedSerials s3 = (mLastSubmittedSerials s)(qsIndex q := qsSerial q) \<and>
         interleaved E ctx batch q s2 (AfterStore, s3, []))"
  proof
    assume "r = Continue"
    with cont obtain s2' where pu: "pushInFlightBatchLocked E batch s2 = Some s2'"
      and s3: "s3 = setLastSubmitted q s2'"
      by blast
    note pp = push_post [OF pu]
    have "interleaved E ctx batch q s2 (AfterStore, setLastSubmitted q s2', [])"
      by (rule interleaved.store, rule interleaved.push [OF _ pu], rule interleaved.start)
    with pu s3 pp ls
    show "\<exists>s2'. pushInFlightBatchLocked E batch s2 = Some s2' \<and>
         mLastSubmittedSerials s2' = mLastSubmittedSerials s \<and>
         batch \<in> set (mInFlightCommands s2') \<and>
         s3 = setLastSubmitted q s2' \<and>
         events s3 = events s2 @ [PushInFlight (mQueueSerial batch), StoreLastSubmitted q] \<and>
         batch \<in> set (mInFlightCommands s3) \<and>
         mLastSubmittedSerials s3 = (mLastSubmittedSerials s)(qsIndex q := qsSerial q) \<and>
         interleaved E ctx batch q s2 (AfterStore, s3, [])"
      by (intro exI [of _ s2']) (simp add: setLastSubmitted_def emit_def)
  qed
  with ev np ls dr stop
  show "\<exists>pre s2. events s2 = events s @ pre \<and> list_all noPush pre \<and>
         mLastSubmittedSerials s2 = mLastSubmittedSerials s \<and>
         (\<exists>n. mInFlightCommands s2 = drop n (mInFlightCommands s)) \<and>
         (r = Stop \<longrightarrow> s3 = s2 \<and> b1 = batch) \<and>
         (r = Continue \<longrightarrow>
            (\<exists>s2'. pushInFlightBatchLocked E batch s2 = Some s2' \<and>
               mLastSubmittedSerials s2' = mLastSubmittedSerials s \<and>
               batch \<in> set (mInFlightCommands s2') \<and>
               s3 = setLastSubmitted q s2' \<and>
               events s3 =
                 events s2 @ [PushInFlight (mQueueSerial batch), StoreLastSubmitted q] \<and>
               batch \<in> set (mInFlightCommands s3) \<and>
               mLastSubmittedSerials s3 =
                 (mLastSubmittedSerials s)(qsIndex q := qsSerial q) \<and>
               interleaved E ctx batch q s2 (AfterStore, s3, [])))"
    by (intro exI [of _ pre] exI [of _ s2] conjI)
next
  assume a: "interleaved E ctx batch q s0 (pos, t, gone) \<and>
    mLastSubmittedSerials s0 (qsIndex q) < qsSerial q \<and>
    qsSerial q \<le> mLastSubmittedSerials t (qsIndex q)"
  then have "pos \<noteq> BeforePush"
    using interleaved_invariant [of E ctx batch q s0 "(pos, t, gone)"] by auto
  with a show "batch \<in> set (mInFlightCommands t) \<or>
      batch \<in> set (mFinishedCommandBatches t) \<or> batch \<in> set gone"
    using interleaved_invariant [of E ctx batch q s0 "(pos, t, gone)"] by auto
qed

theorem push_before_lastSubmitted_witness:
  "(\<exists>b1 s3. queueSubmitLocked device_ok ExternalContext Medium VkSubmitInfo_zero batch_first
               \<lparr>qsIndex = 0, qsSerial = 1\<rparr> state_after_init = Some (Continue, b1, s3) \<and>
      events s3 = [PushInFlight \<lparr>qsIndex = 0, qsSerial = 1\<rparr>,
                   StoreLastSubmitted \<lparr>qsIndex = 0, qsSerial = 1\<rparr>] \<and>
      batch_first \<in> set (mInFlightCommands s3) \<and>
      mLastSubmittedSerials s3 0 = 1) \<and>
   (\<exists>b1 s3. queueSubmitLocked device_timeout ExternalContext Medium VkSubmitInfo_zero
               batch_fourth \<lparr>qsIndex = 0, qsSerial = 4\<rparr> state_rings_full =
               Some (Stop, b1, s3) \<and>
      b1 = batch_fourth \<and> list_all noPush (events s3) \<and>
      mLastSubmittedSerials s3 = mLastSubmittedSerials state_rings_full \<and>
      mLastSubmittedSerials s3 0 = 3) \<and>
   (\<exists>t. interleaved device_ok ExternalContext batch_first \<lparr>qsIndex = 0, qsSerial = 1\<rparr>
           state_after_init (AfterStore, t, []) \<and>
      mLastSubmittedSerials state_after_init 0 < 1 \<and>
      1 \<le> mLastSubmittedSerials t 0 \<and>
      mInFlightCommands t = [] \<and>
      batch_first \<in> set (mFinishedCommandBatches t))"
proof -
  let ?q = "\<lparr>qsIndex = 0, qsSerial = 1\<rparr>"
  let ?q4 = "\<lparr>qsIndex = 0, qsSerial = 4\<rparr>"
  let ?sP = "state_after_init\<lparr>mInFlightCommands := [batch_first], mNumAllCommands := 1,
                              events := [PushInFlight ?q]\<rparr>"
  let ?sC = "state_after_init\<lparr>mInFlightCommands := [],
                              mFinishedCommandBatches := [batch_first],
                              mNumAllCommands := 1,
                              mLastCompletedSerials := (\<lambda>_. kZeroSerial)(0 := 1),
                              events := [PushInFlight ?q, StoreLastCompleted ?q]\<rparr>"
  have e0: "events state_after_init = []" "events state_rings_full = []"
    "mLastSubmittedSerials state_rings_full 0 = 3"
    by (simp_all add: example_defs)
  have "map_option (\<lambda>(r, b, s). r)
          (queueSubmitLocked device_ok ExternalContext Medium VkSubmitInfo_zero batch_first ?q
             state_after_init) = Some Continue"
    by (simp add: submit_defs queue_defs batch_defs effect_defs example_defs)
  then obtain b1 s3 where run: "queueSubmitLocked device_ok ExternalContext Medium
      VkSubmitInfo_zero batch_first ?q state_after_init = Some (Continue, b1, s3)"
    by auto
  have "map_option (\<lambda>(r, b, s). r)
          (queueSubmitLocked device_timeout ExternalContext Medium VkSubmitInfo_zero
             batch_fourth ?q4 state_rings_full) = Some Stop"
    by (simp add: submit_defs queue_defs batch_defs fence_defs effect_defs example_defs)
  then obtain c1 v3 where stp: "queueSubmitLocked device_timeout ExternalContext Medium
      VkSubmitInfo_zero batch_fourth ?q4 state_rings_full = Some (Stop, c1, v3)"
    by auto
  have p: "pushInFlightBatchLocked device_ok batch_first state_after_init = Some ?sP"
    by (simp add: queue_defs batch_defs effect_defs example_defs)
  have c: "onCommandBatchFinishedLocked device_ok ?sP = Some ?sC"
    by (simp add: queue_defs batch_defs effect_defs example_defs)
  have reach: "interleaved device_ok ExternalContext batch_first ?q state_after_init
      (AfterStore, setLastSubmitted ?q ?sC, [])"
    by (rule interleaved.store, rule interleaved.complete [OF _ c],
        rule interleaved.push [OF _ p], rule interleaved.start)
  have fresh: "mLastSubmittedSerials state_after_init (qsIndex ?q) < qsSerial ?q"
    by (simp add: example_defs kZeroSerial_def)
  have seen: "qsSerial ?q \<le> mLastSubmittedSerials (setLastSubmitted ?q ?sC) (qsIndex ?q)"
    by (simp add: setLastSubmitted_def emit_def)
  have mq: "mQueueSerial batch_first = ?q"
    by (simp add: batch_first_def)
  from push_before_lastSubmitted [of device_ok ExternalContext Medium VkSubmitInfo_zero
      batch_first ?q state_after_init Continue b1 s3 state_after_init AfterStore
      "setLastSubmitted ?q ?sC" "[]"] run
  have "batch_first \<in> set (mInFlightCommands s3) \<and>
      mLastSubmittedSerials s3 =
        (mLastSubmittedSerials state_after_init)(qsIndex ?q := qsSerial ?q)"
    by blast
  moreover have "map_option (\<lambda>(r, b, s). events s)
          (queueSubmitLocked device_ok ExternalContext Medium VkSubmitInfo_zero batch_first ?q
             state_after_init) = Some [PushInFlight ?q, StoreLastSubmitted ?q]"
    by (simp add: submit_defs queue_defs batch_defs effect_defs example_defs)
  ultimately have one: "events s3 = [PushInFlight ?q, StoreLastSubmitted ?q]"
    "batch_first \<in> set (mInFlightCommands s3)" "mLastSubmittedSerials s3 0 = 1"
    using run by auto
  from push_before_lastSubmitted [of device_timeout ExternalContext Medium VkSubmitInfo_zero
      batch_fourth ?q4 state_rings_full Stop c1 v3] stp
  obtain pre s2 where "events s2 = events state_rings_full @ pre" "list_all noPush pre"
    "mLastSubmittedSerials s2 = mLastSubmittedSerials state_rings_full"
    "v3 = s2 \<and> c1 = batch_fourth"
    by blast
  with e0 have two: "c1 = batch_fourth" "list_all noPush (events v3)"
    "mLastSubmittedSerials v3 = mLastSubmittedSerials state_rings_full"
    by simp_all
  from push_before_lastSubmitted [of device_ok ExternalContext Medium VkSubmitInfo_zero
      batch_first ?q state_after_init Continue b1 s3 state_after_init AfterStore
      "setLastSubmitted ?q ?sC" "[]"] reach fresh seen
  have three: "batch_first \<in> set (mFinishedCommandBatches (setLastSubmitted ?q ?sC))"
    by (auto simp: setLastSubmitted_def emit_def)
  have four: "mInFlightCommands (setLastSubmitted ?q ?sC) = []"
    "mLastSubmittedSerials state_after_init 0 < 1"
    "1 \<le> mLastSubmittedSerials (setLastSubmitted ?q ?sC) 0"
    using fresh seen by (simp_all add: setLastSubmitted_def emit_def)
  from run one stp two e0 reach three four show ?thesis
    by auto
qed

subsection \<open>Submission: when the device is called\<close>

lemma getCommands_post:
  assumes "CommandPoolAccess_getCommandsAndWaitSemaphores E ctx pt priority b s =
             Some (r, b3, ws, ms, s1)"
  shows "appends quiet s s1 \<and> ringsKept s s1 \<and> mTaskQueue s1 = mTaskQueue s \<and>
         swapchainStatus s1 = swapchainStatus s \<and>
         (r = Continue \<longrightarrow>
            mPrimaryCommands b3 = primaryCommands (mCommandsStateMap s priority pt) \<and>
            ws = waitSemaphores (mCommandsStateMap s priority pt) \<and>
            mFence b3 = mFence b \<and> mExternalFence b3 = mExternalFence b \<and>
            mQueueSerial b3 = mQueueSerial b)"
proof -
  let ?s0 = "lock CmdPoolMutex s"
  let ?st = "mCommandsStateMap ?s0 priority pt"
  from assms obtain r0 s2 where
    tr: "(if valid (primaryCommands ?st) then
            ANGLE_VK_TRY ctx ''getCommandsAndWaitSemaphores'' 1196
              (vkEndCommandBuffer E (events ?s0) (primaryCommands ?st))
              (emit (CallEndCommandBuffer (primaryCommands ?st)) ?s0)
          else Some (Continue, ?s0)) = Some (r0, s2)"
    by (auto simp: CommandPoolAccess_getCommandsAndWaitSemaphores_def Let_def
        split: if_splits option.splits)
  have q2: "appends quiet ?s0 s2 \<and> frame ?s0 s2"
  proof (cases "valid (primaryCommands ?st)")
    case False
    with tr show ?thesis by (simp add: appends_refl frame_refl)
  next
    case True
    let ?s1 = "emit (CallEndCommandBuffer (primaryCommands ?st)) ?s0"
    from True tr have t: "ANGLE_VK_TRY ctx ''getCommandsAndWaitSemaphores'' 1196
        (vkEndCommandBuffer E (events ?s0) (primaryCommands ?st)) ?s1 = Some (r0, s2)"
      by simp
    have "appends quiet ?s0 ?s1" by (simp add: appends_emit quiet_defs)
    also have "appends quiet ?s1 s2" using t by (rule leaves_ANGLE_VK_TRY)
    finally have "appends quiet ?s0 s2" .
    moreover have "frame ?s0 s2"
      using frame_emit frame_ANGLE_VK_TRY [OF t] by (rule frame_trans)
    ultimately show ?thesis by simp
  qed
  have q0: "appends quiet s ?s0" "frame s ?s0"
    by (simp_all add: appends_lock frame_lock)
  from assms tr have s1: "events s1 = events s2 @ [Unlock CmdPoolMutex]"
    and fr1: "mInFlightCommands s1 = mInFlightCommands s2 \<and>
      mFinishedCommandBatches s1 = mFinishedCommandBatches s2 \<and>
      mNumAllCommands s1 = mNumAllCommands s2 \<and>
      mLastSubmittedSerials s1 = mLastSubmittedSerials s2 \<and>
      mLastCompletedSerials s1 = mLastCompletedSerials s2 \<and>
      mTaskQueue s1 = mTaskQueue s2 \<and> swapchainStatus s1 = swapchainStatus s2"
    and res: "r = Continue \<longrightarrow>
            mPrimaryCommands b3 = primaryCommands ?st \<and>
            ws = waitSemaphores ?st \<and>
            mFence b3 = mFence b \<and> mExternalFence b3 = mExternalFence b \<and>
            mQueueSerial b3 = mQueueSerial b"
    by (auto simp: CommandPoolAccess_getCommandsAndWaitSemaphores_def Let_def unlock_def
        emit_def CommandBatch_setPrimaryCommands_def CommandBatch_setSecondaryCommands_def
        split: if_splits option.splits Result.splits)
  from s1 have "appends quiet s2 s1"
    by (simp add: appends_def quiet_defs)
  with q0 q2 have "appends quiet s s1"
    by (blast intro: appends_trans)
  moreover from q0 q2 have "frame s s2" by (blast intro: frame_trans)
  with fr1 have "ringsKept s s1 \<and> mTaskQueue s1 = mTaskQueue s \<and>
      swapchainStatus s1 = swapchainStatus s"
    by (simp add: frame_def ringsKept_def)
  moreover from res have "r = Continue \<longrightarrow>
            mPrimaryCommands b3 = primaryCommands (mCommandsStateMap s priority pt) \<and>
            ws = waitSemaphores (mCommandsStateMap s priority pt) \<and>
            mFence b3 = mFence b \<and> mExternalFence b3 = mExternalFence b \<and>
            mQueueSerial b3 = mQueueSerial b"
    by (simp add: lock_def emit_def)
  ultimately show ?thesis by simp
qed

lemma quiet_calm: "list_all quiet evs \<Longrightarrow> list_all calm evs"
  by (simp add: list_all_iff quiet_def calm_def)

lemma calm_noSubmit: "list_all calm evs \<Longrightarrow> list_all (\<lambda>e. \<not> isQueueSubmit e) evs"
  by (simp add: list_all_iff calm_def)

lemma destroy_post:
  "CommandBatch_destroy b s = Some (b1, s1) \<Longrightarrow> appends quiet s s1"
  by (auto simp: CommandBatch_destroy_def CommandPoolAccess_destroyPrimaryCommandBuffer_def
        SharedFence_reset_def RecyclableFence_destroy_def RecyclableFence_detachRecycler_def
        FenceRecycler_recycle_def releaseCommandBuffers_def appends_def quiet_defs emit_def
        lock_def unlock_def Let_def
      split: option.splits if_splits prod.splits)

lemma initFence_post:
  assumes "CommandBatch_initFence E b s = Some (r, b4, s1)"
  shows "appends calm s s1 \<and> frame s s1 \<and> mQueueSerial b4 = mQueueSerial b"
  using assms
  by (auto simp: CommandBatch_initFence_def RecyclableFence_init_def FenceRecycler_fetch_def
        Recycler_fetch_def lock_def unlock_def emit_def Let_def appends_def calm_def
        quiet_defs frame_def ringsKept_def
      split: option.splits if_splits prod.splits bool.splits)

text \<open>
  A run of \<open>queueSubmitLocked\<close> behind events that are neither a device submit, nor a
  push, nor a store of a serial, and that leave the submit mutex alone.
\<close>

lemma run_after_prefix:
  assumes run: "queueSubmitLocked E ctx priority si b0 q sF = Some (r, b, s2)"
    and ev0: "events sF = events s @ evs0" and c0: "list_all calm evs0"
    and ls0: "mLastSubmittedSerials sF = mLastSubmittedSerials s"
    and q0: "mQueueSerial b0 = q"
  shows "\<exists>evs. events s2 = events s @ evs \<and> list_all leavesSubmitLock evs \<and>
     (\<not> sTypeIsSubmitInfo si \<and> list_all (\<lambda>e. \<not> isFenceAcquire e) evs0 \<longrightarrow>
        list_all (\<lambda>e. \<not> isQueueSubmit e \<and> \<not> isFenceAcquire e) evs) \<and>
     (r = Continue \<and> sTypeIsSubmitInfo si \<longrightarrow>
        (\<exists>f. CallQueueSubmit priority si f \<in> set evs)) \<and>
     (r = Stop \<longrightarrow>
        list_all noPush evs \<and> mLastSubmittedSerials s2 = mLastSubmittedSerials s \<and>
        (list_all (\<lambda>e. \<not> isQueueSubmit e) evs \<or>
         (\<exists>a si f c. evs = a @ CallQueueSubmit priority si f # c \<and>
            list_all (\<lambda>e. \<not> isQueueSubmit e) a \<and> list_all (\<lambda>e. \<not> isQueueSubmit e) c \<and>
            vkQueueSubmit E (events s @ a) si f \<noteq> VK_SUCCESS))) \<and>
     (r = Continue \<longrightarrow>
        PushInFlight q \<in> set evs \<and> b = CommandBatch_new \<and> mInFlightCommands s2 \<noteq> [] \<and>
        last (mInFlightCommands s2) = b0 \<and>
        mLastSubmittedSerials s2 (qsIndex q) = qsSerial q)"
proof -
  from run obtain pre sM where
    ev: "events sM = events sF @ pre"
    and lv: "list_all leavesSubmitLock pre" and np: "list_all noPush pre"
    and qu: "\<not> sTypeIsSubmitInfo si \<longrightarrow> list_all quiet pre"
    and su: "sTypeIsSubmitInfo si \<and> r = Continue \<longrightarrow>
           (\<exists>f. CallQueueSubmit priority si f \<in> set pre)"
    and sh: "r = Stop \<longrightarrow> list_all quiet pre \<or>
           (\<exists>a f c. pre = a @ CallQueueSubmit priority si f # c \<and> list_all quiet a \<and>
              list_all quiet c \<and> vkQueueSubmit E (events sF @ a) si f \<noteq> VK_SUCCESS)"
    and ls: "mLastSubmittedSerials sM = mLastSubmittedSerials sF"
    and stop: "r = Stop \<longrightarrow> s2 = sM \<and> b = b0"
    and cont: "r = Continue \<longrightarrow>
           \<not> FixedQueue_full (kInFlightCommandsLimit E) (mInFlightCommands sM) \<and>
           mNumAllCommands sM < kMaxFinishedCommandsLimit E \<and>
           (mNumAllCommands sF = kMaxFinishedCommandsLimit E \<longrightarrow>
              mFinishedCommandBatches sM = []) \<and>
           b = CommandBatch_new \<and>
           (\<exists>s2'. pushInFlightBatchLocked E b0 sM = Some s2' \<and>
              s2 = setLastSubmitted q s2')"
    by (rule queueSubmitLocked_run) blast
  let ?tail = "if r = Continue then [PushInFlight (mQueueSerial b0), StoreLastSubmitted q]
               else []"
  have cont': "r = Continue \<longrightarrow>
      events s2 = events sM @ ?tail \<and> mInFlightCommands s2 = mInFlightCommands sM @ [b0] \<and>
      mLastSubmittedSerials s2 (qsIndex q) = qsSerial q \<and> b = CommandBatch_new"
  proof
    assume "r = Continue"
    with cont obtain s2' where pu: "pushInFlightBatchLocked E b0 sM = Some s2'"
      and s2: "s2 = setLastSubmitted q s2'" and "b = CommandBatch_new"
      by blast
    with push_post [OF pu] \<open>r = Continue\<close>
    show "events s2 = events sM @ ?tail \<and> mInFlightCommands s2 = mInFlightCommands sM @ [b0] \<and>
      mLastSubmittedSerials s2 (qsIndex q) = qsSerial q \<and> b = CommandBatch_new"
      by (simp add: setLastSubmitted_def emit_def)
  qed
  have e: "events s2 = events s @ (evs0 @ pre @ ?tail)"
    using ev ev0 stop cont' by (cases r) simp_all
  have a: "list_all leavesSubmitLock (evs0 @ pre @ ?tail)"
    using c0 lv by (auto simp: list_all_iff calm_def leavesSubmitLock_def)
  have b: "\<not> sTypeIsSubmitInfo si \<and> list_all (\<lambda>e. \<not> isFenceAcquire e) evs0 \<longrightarrow>
        list_all (\<lambda>e. \<not> isQueueSubmit e \<and> \<not> isFenceAcquire e) (evs0 @ pre @ ?tail)"
    using c0 qu by (auto simp: list_all_iff calm_def quiet_defs)
  have c: "r = Continue \<and> sTypeIsSubmitInfo si \<longrightarrow>
        (\<exists>f. CallQueueSubmit priority si f \<in> set (evs0 @ pre @ ?tail))"
    using su by auto
  have d: "r = Stop \<longrightarrow>
        list_all noPush (evs0 @ pre @ ?tail) \<and>
        mLastSubmittedSerials s2 = mLastSubmittedSerials s \<and>
        (list_all (\<lambda>e. \<not> isQueueSubmit e) (evs0 @ pre @ ?tail) \<or>
         (\<exists>a si f c. evs0 @ pre @ ?tail = a @ CallQueueSubmit priority si f # c \<and>
            list_all (\<lambda>e. \<not> isQueueSubmit e) a \<and> list_all (\<lambda>e. \<not> isQueueSubmit e) c \<and>
            vkQueueSubmit E (events s @ a) si f \<noteq> VK_SUCCESS))"
  proof
    assume st: "r = Stop"
    have n: "list_all noPush (evs0 @ pre @ ?tail)"
      using c0 np st by (auto simp: list_all_iff calm_def)
    have l: "mLastSubmittedSerials s2 = mLastSubmittedSerials s"
      using st stop ls ls0 by simp
    from sh st consider "list_all quiet pre"
      | a f c where "pre = a @ CallQueueSubmit priority si f # c" "list_all quiet a"
          "list_all quiet c" "vkQueueSubmit E (events sF @ a) si f \<noteq> VK_SUCCESS"
      by blast
    then have "list_all (\<lambda>e. \<not> isQueueSubmit e) (evs0 @ pre @ ?tail) \<or>
         (\<exists>a si f c. evs0 @ pre @ ?tail = a @ CallQueueSubmit priority si f # c \<and>
            list_all (\<lambda>e. \<not> isQueueSubmit e) a \<and> list_all (\<lambda>e. \<not> isQueueSubmit e) c \<and>
            vkQueueSubmit E (events s @ a) si f \<noteq> VK_SUCCESS)"
    proof cases
      case 1
      with c0 st have "list_all (\<lambda>e. \<not> isQueueSubmit e) (evs0 @ pre @ ?tail)"
        by (simp add: calm_noSubmit quiet_noSubmit)
      then show ?thesis ..
    next
      case (2 a f c)
      with c0 st ev0 have
        "evs0 @ pre @ ?tail = (evs0 @ a) @ CallQueueSubmit priority si f # c \<and>
          list_all (\<lambda>e. \<not> isQueueSubmit e) (evs0 @ a) \<and>
          list_all (\<lambda>e. \<not> isQueueSubmit e) c \<and>
          vkQueueSubmit E (events s @ (evs0 @ a)) si f \<noteq> VK_SUCCESS"
        by (simp add: calm_noSubmit quiet_noSubmit)
      then show ?thesis by blast
    qed
    with n l show "list_all noPush (evs0 @ pre @ ?tail) \<and>
        mLastSubmittedSerials s2 = mLastSubmittedSerials s \<and>
        (list_all (\<lambda>e. \<not> isQueueSubmit e) (evs0 @ pre @ ?tail) \<or>
         (\<exists>a si f c. evs0 @ pre @ ?tail = a @ CallQueueSubmit priority si f # c \<and>
            list_all (\<lambda>e. \<not> isQueueSubmit e) a \<and> list_all (\<lambda>e. \<not> isQueueSubmit e) c \<and>
            vkQueueSubmit E (events s @ a) si f \<noteq> VK_SUCCESS))"
      by simp
  qed
  have f: "r = Continue \<longrightarrow>
        PushInFlight q \<in> set (evs0 @ pre @ ?tail) \<and> b = CommandBatch_new \<and>
        mInFlightCommands s2 \<noteq> [] \<and> last (mInFlightCommands s2) = b0 \<and>
        mLastSubmittedSerials s2 (qsIndex q) = qsSerial q"
    using cont' q0 by auto
  from e a b c d f show ?thesis
    by (intro exI [of _ "evs0 @ pre @ ?tail"] conjI)
qed

lemma scope_post:
  assumes "submitCommands_scope E ctx pt priority sem ext q s = Some (r, b, s2)"
  shows "\<exists>evs. events s2 = events s @ evs \<and> list_all leavesSubmitLock evs \<and>
     (\<not> submissionHasWork s pt priority sem ext \<longrightarrow>
        list_all (\<lambda>e. \<not> isQueueSubmit e \<and> \<not> isFenceAcquire e) evs) \<and>
     (r = Continue \<and> submissionHasWork s pt priority sem ext \<longrightarrow>
        (\<exists>si f. CallQueueSubmit priority si f \<in> set evs)) \<and>
     (r = Stop \<longrightarrow>
        list_all noPush evs \<and> mLastSubmittedSerials s2 = mLastSubmittedSerials s \<and>
        (list_all (\<lambda>e. \<not> isQueueSubmit e) evs \<or>
         (\<exists>a si f c. evs = a @ CallQueueSubmit priority si f # c \<and>
            list_all (\<lambda>e. \<not> isQueueSubmit e) a \<and> list_all (\<lambda>e. \<not> isQueueSubmit e) c \<and>
            vkQueueSubmit E (events s @ a) si f \<noteq> VK_SUCCESS))) \<and>
     (r = Continue \<longrightarrow>
        PushInFlight q \<in> set evs \<and> b = CommandBatch_new \<and> mInFlightCommands s2 \<noteq> [] \<and>
        mQueueSerial (last (mInFlightCommands s2)) = q \<and>
        (\<not> submissionHasWork s pt priority sem ext \<longrightarrow>
           mFence (last (mInFlightCommands s2)) = None \<and>
           mExternalFence (last (mInFlightCommands s2)) = None) \<and>
        mLastSubmittedSerials s2 (qsIndex q) = qsSerial q)"
proof -
  let ?work = "submissionHasWork s pt priority sem ext"
  from assms obtain b1 b2 where
    b1: "CommandBatch_setQueueSerial q CommandBatch_new = Some b1"
    and b2: "CommandBatch_setProtectionType pt b1 = Some b2"
    by (auto simp: submitCommands_scope_def split: option.splits)
  then have b2f: "mQueueSerial b2 = q" "mFence b2 = None" "mExternalFence b2 = None"
    by (auto simp: CommandBatch_setQueueSerial_def CommandBatch_setProtectionType_def
        CommandBatch_new_def split: if_splits)
  from assms b1 b2 obtain rG b3 ws ms sG where
    g: "CommandPoolAccess_getCommandsAndWaitSemaphores E ctx pt priority b2 s =
          Some (rG, b3, ws, ms, sG)"
    by (auto simp: submitCommands_scope_def split: option.splits)
  note pg = getCommands_post [OF g]
  from pg obtain evsG where evG: "events sG = events s @ evsG" and qG: "list_all quiet evsG"
    by (auto simp: appends_def)
  from pg have lsG: "mLastSubmittedSerials sG = mLastSubmittedSerials s"
    by (simp add: ringsKept_def)
  show ?thesis
  proof (cases rG)
    case Stop
    with assms b1 b2 g have "r = Stop" "s2 = sG"
      by (simp_all add: submitCommands_scope_def)
    with evG qG lsG show ?thesis
      by (intro exI [of _ evsG])
         (simp add: quiet_leaves quiet_noPush quiet_noSubmit, simp add: list_all_iff quiet_def)
  next
    case Continue
    with pg b2f have b3f: "mQueueSerial b3 = q" "mFence b3 = None" "mExternalFence b3 = None"
      and work: "needsQueueSubmit b3 sem ext ws = ?work"
      by (simp_all add: needsQueueSubmit_def submissionHasWork_def)
    show ?thesis
    proof (cases ?work)
      case False
      with work assms b1 b2 g Continue have
        run: "queueSubmitLocked E ctx priority VkSubmitInfo_zero b3 q sG = Some (r, b, s2)"
        by (simp add: submitCommands_scope_def)
      have na: "list_all (\<lambda>e. \<not> isFenceAcquire e) evsG"
        using qG by (simp add: list_all_iff quiet_def)
      have ns: "\<not> sTypeIsSubmitInfo VkSubmitInfo_zero"
        by (simp add: VkSubmitInfo_zero_def)
      from run_after_prefix [OF run evG quiet_calm [OF qG] lsG b3f(1)] obtain evs where
        x: "events s2 = events s @ evs" "list_all leavesSubmitLock evs"
        "\<not> sTypeIsSubmitInfo VkSubmitInfo_zero \<and> list_all (\<lambda>e. \<not> isFenceAcquire e) evsG \<longrightarrow>
           list_all (\<lambda>e. \<not> isQueueSubmit e \<and> \<not> isFenceAcquire e) evs"
        "r = Stop \<longrightarrow>
          list_all noPush evs \<and> mLastSubmittedSerials s2 = mLastSubmittedSerials s \<and>
          (list_all (\<lambda>e. \<not> isQueueSubmit e) evs \<or>
           (\<exists>a si f c. evs = a @ CallQueueSubmit priority si f # c \<and>
              list_all (\<lambda>e. \<not> isQueueSubmit e) a \<and> list_all (\<lambda>e. \<not> isQueueSubmit e) c \<and>
              vkQueueSubmit E (events s @ a) si f \<noteq> VK_SUCCESS))"
        "r = Continue \<longrightarrow>
          PushInFlight q \<in> set evs \<and> b = CommandBatch_new \<and> mInFlightCommands s2 \<noteq> [] \<and>
          last (mInFlightCommands s2) = b3 \<and>
          mLastSubmittedSerials s2 (qsIndex q) = qsSerial q"
        by blast
      from x(3) ns na have
        y: "list_all (\<lambda>e. \<not> isQueueSubmit e \<and> \<not> isFenceAcquire e) evs"
        by simp
      from x(1,2,4,5) y False b3f show ?thesis
        by (intro exI [of _ evs]) simp
    next
      case True
      with work assms b1 b2 g Continue obtain si where
        si: "InitializeSubmitInfo VkSubmitInfo_zero (mPrimaryCommands b3) ws ms sem = Some si"
        by (auto simp: submitCommands_scope_def split: option.splits)
      let ?si1 = "if pt = Protected \<and> valid (mPrimaryCommands b3)
                  then si\<lparr>protectedSubmit := True\<rparr> else si"
      from si have st: "sTypeIsSubmitInfo ?si1"
        by (auto simp: InitializeSubmitInfo_def split: if_splits)
      from True work assms b1 b2 g Continue si obtain rF b4 sF where
        f: "(if ext = None then
              (case CommandBatch_initFence E b3 sG of
                 None \<Rightarrow> None
               | Some (r, b4, s2) \<Rightarrow>
                   map_option (\<lambda>(res, s3). (res, b4, s3))
                     (ANGLE_VK_TRY ctx ''submitCommands'' 1497 r s2))
            else map_option (\<lambda>b4. (Continue, b4, sG))
                   (CommandBatch_setExternalFence ext b3)) = Some (rF, b4, sF)"
        by (auto simp: submitCommands_scope_def Let_def split: option.splits)
      have pf: "appends calm sG sF \<and> mLastSubmittedSerials sF = mLastSubmittedSerials sG \<and>
          mQueueSerial b4 = q"
      proof (cases "ext = None")
        case True
        with f obtain r0 s0 where i: "CommandBatch_initFence E b3 sG = Some (r0, b4, s0)"
          and t: "ANGLE_VK_TRY ctx ''submitCommands'' 1497 r0 s0 = Some (rF, sF)"
          by (auto split: option.splits)
        from leaves_ANGLE_VK_TRY [OF t] have "appends calm s0 sF"
          by (rule appends_mono) (simp add: quiet_def calm_def)
        with initFence_post [OF i] have "appends calm sG sF"
          by (blast intro: appends_trans)
        with initFence_post [OF i] frame_ANGLE_VK_TRY [OF t] b3f show ?thesis
          by (simp add: frame_def ringsKept_def)
      next
        case False
        with f b3f show ?thesis
          by (auto simp: CommandBatch_setExternalFence_def appends_refl
              split: option.splits bool.splits)
      qed
      then obtain evsF where evF: "events sF = events sG @ evsF" and cF: "list_all calm evsF"
        and lsF: "mLastSubmittedSerials sF = mLastSubmittedSerials sG"
        and b4q: "mQueueSerial b4 = q"
        by (auto simp: appends_def)
      have ev0: "events sF = events s @ (evsG @ evsF)" using evG evF by simp
      have c0: "list_all calm (evsG @ evsF)" using quiet_calm [OF qG] cF by simp
      have ls0: "mLastSubmittedSerials sF = mLastSubmittedSerials s" using lsG lsF by simp
      show ?thesis
      proof (cases rF)
        case Stop
        with True work assms b1 b2 g Continue si f have "r = Stop" "s2 = sF"
          by (simp_all add: submitCommands_scope_def Let_def)
        with ev0 c0 ls0 True show ?thesis
          by (intro exI [of _ "evsG @ evsF"])
             (simp add: calm_noSubmit, simp add: list_all_iff calm_def)
      next
        case Continue
        with True work assms b1 b2 g \<open>rG = Continue\<close> si f have
          run: "queueSubmitLocked E ctx priority ?si1 b4 q sF = Some (r, b, s2)"
          by (simp add: submitCommands_scope_def Let_def)
        from run_after_prefix [OF run ev0 c0 ls0 b4q] obtain evs where
          x: "events s2 = events s @ evs" "list_all leavesSubmitLock evs"
          "r = Continue \<and> sTypeIsSubmitInfo ?si1 \<longrightarrow>
             (\<exists>f. CallQueueSubmit priority ?si1 f \<in> set evs)"
          "r = Stop \<longrightarrow>
            list_all noPush evs \<and> mLastSubmittedSerials s2 = mLastSubmittedSerials s \<and>
            (list_all (\<lambda>e. \<not> isQueueSubmit e) evs \<or>
             (\<exists>a si f c. evs = a @ CallQueueSubmit priority si f # c \<and>
                list_all (\<lambda>e. \<not> isQueueSubmit e) a \<and> list_all (\<lambda>e. \<not> isQueueSubmit e) c \<and>
                vkQueueSubmit E (events s @ a) si f \<noteq> VK_SUCCESS))"
          "r = Continue \<longrightarrow>
            PushInFlight q \<in> set evs \<and> b = CommandBatch_new \<and> mInFlightCommands s2 \<noteq> [] \<and>
            last (mInFlightCommands s2) = b4 \<and>
            mLastSubmittedSerials s2 (qsIndex q) = qsSerial q"
          by blast
        from x(3) st have y: "r = Continue \<longrightarrow> (\<exists>si f. CallQueueSubmit priority si f \<in> set evs)"
          by blast
        from x(1,2,4,5) y True b4q show ?thesis
          by (intro exI [of _ evs]) simp
      qed
    qed
  qed
qed

text \<open>
  C4, as stated, makes the device submit depend on the four conditions alone and promises
  the push of an empty submission. Both fail when a later step fails: with a valid
  primary buffer and a device that cannot create a fence, \<open>submitCommands\<close> reports the
  error and returns \<open>Stop\<close> without a device submit; and an empty submission into a
  full in-flight ring whose oldest fence times out returns \<open>Stop\<close> with nothing pushed
  and last-submitted where it was.
\<close>

theorem submit_decision_fails_on_errors:
  "submissionHasWork state_recorded Unprotected Medium VK_NULL_HANDLE None \<and>
   map_option (\<lambda>(r, s). (r, events s))
     (CommandQueue_submitCommands device_no_fences ExternalContext Unprotected Medium
        VK_NULL_HANDLE None \<lparr>qsIndex = 0, qsSerial = 1\<rparr> state_recorded) =
     Some (Stop,
           [Lock QueueSubmitMutex, Lock CmdPoolMutex, CallEndCommandBuffer 11,
            Unlock CmdPoolMutex, Lock FenceRecyclerMutex, Unlock FenceRecyclerMutex,
            CallCreateFence,
            ContextHandleError
              \<lparr>errorCode = VK_ERROR_OUT_OF_HOST_MEMORY, errFile = ''CommandProcessor.cpp'',
               errFunction = ''submitCommands'', errLine = 1497\<rparr>,
            Lock CmdPoolMutex, CallDestroyPrimary 11, Unlock CmdPoolMutex,
            Unlock QueueSubmitMutex]) \<and>
   \<not> submissionHasWork state_two_in_flight Unprotected Medium VK_NULL_HANDLE None \<and>
   map_option (\<lambda>(r, s). (r, events s, map mQueueSerial (mInFlightCommands s),
                           mLastSubmittedSerials s 0))
     (CommandQueue_submitCommands device_timeout ExternalContext Unprotected Medium
        VK_NULL_HANDLE None \<lparr>qsIndex = 0, qsSerial = 3\<rparr> state_two_in_flight) =
     Some (Stop,
           [Lock QueueSubmitMutex, Lock CmdPoolMutex, Unlock CmdPoolMutex,
            Lock CmdCompleteMutex, CallWaitForFence 21 1000,
            ContextHandleError
              \<lparr>errorCode = VK_TIMEOUT, errFile = ''CommandProcessor.cpp'',
               errFunction = ''finishOneCommandBatchLocked'', errLine = 1728\<rparr>,
            Unlock CmdCompleteMutex, Unlock QueueSubmitMutex],
           [\<lparr>qsIndex = 0, qsSerial = 1\<rparr>, \<lparr>qsIndex = 0, qsSerial = 2\<rparr>], 2)"
  by (simp add: submissionHasWork_def submit_defs queue_defs batch_defs fence_defs effect_defs
      example_defs)

text \<open>
  C4, amended: \<open>submitCommands\<close> calls the device submit only if the extracted batch
  has a valid primary command buffer, or a signal semaphore was supplied, or an external
  fence was supplied, or the accumulated wait-semaphore list is non-empty; when one of
  these holds and the call returns \<open>Continue\<close>, it has called the device submit. A
  submission meeting none of them that returns \<open>Continue\<close> has created a batch with
  the serial and without a fence, pushed it onto the in-flight ring and advanced
  last-submitted, without a device submit and without acquiring a fence. A call that
  returns \<open>Stop\<close> has pushed nothing and stored no serial, last-submitted is where it
  was, and it has made no device submit other than one that the device answered with an
  error.
\<close>

theorem submit_decision:
  assumes "CommandQueue_submitCommands E ctx pt priority sem ext q s = Some (r, s1)"
  shows "\<exists>evs. events s1 = events s @ evs \<and>
           ((\<exists>e \<in> set evs. isQueueSubmit e) \<longrightarrow> submissionHasWork s pt priority sem ext) \<and>
           (r = Continue \<and> submissionHasWork s pt priority sem ext \<longrightarrow>
              (\<exists>si f. CallQueueSubmit priority si f \<in> set evs)) \<and>
           (r = Continue \<and> \<not> submissionHasWork s pt priority sem ext \<longrightarrow>
              list_all (\<lambda>e. \<not> isQueueSubmit e \<and> \<not> isFenceAcquire e) evs \<and>
              PushInFlight q \<in> set evs \<and>
              mInFlightCommands s1 \<noteq> [] \<and>
              mQueueSerial (last (mInFlightCommands s1)) = q \<and>
              mFence (last (mInFlightCommands s1)) = None \<and>
              mExternalFence (last (mInFlightCommands s1)) = None \<and>
              mLastSubmittedSerials s1 (qsIndex q) = qsSerial q) \<and>
           (r = Stop \<longrightarrow>
              list_all noPush evs \<and> mLastSubmittedSerials s1 = mLastSubmittedSerials s \<and>
              (list_all (\<lambda>e. \<not> isQueueSubmit e) evs \<or>
               (\<exists>a si f c. evs = a @ CallQueueSubmit priority si f # c \<and>
                  list_all (\<lambda>e. \<not> isQueueSubmit e) a \<and>
                  list_all (\<lambda>e. \<not> isQueueSubmit e) c \<and>
                  vkQueueSubmit E (events s @ a) si f \<noteq> VK_SUCCESS)))"
proof -
  let ?s0 = "lock QueueSubmitMutex s"
  let ?work = "submissionHasWork s pt priority sem ext"
  from assms obtain b s2 b' s3 where
    sc: "submitCommands_scope E ctx pt priority sem ext q ?s0 = Some (r, b, s2)"
    and de: "CommandBatch_destroy b s2 = Some (b', s3)"
    and s1: "s1 = unlock QueueSubmitMutex s3"
    by (auto simp: CommandQueue_submitCommands_def DeviceScoped_exit_def
        elim!: with_lock_Some split: option.splits)
  have w0: "submissionHasWork ?s0 pt priority sem ext = ?work"
    by (simp add: submissionHasWork_def lock_def emit_def)
  have e0: "events ?s0 = events s @ [Lock QueueSubmitMutex]"
    "mLastSubmittedSerials ?s0 = mLastSubmittedSerials s"
    by (simp_all add: lock_def emit_def)
  from scope_post [OF sc] obtain evs where
    ev: "events s2 = events ?s0 @ evs"
    and qu0: "\<not> submissionHasWork ?s0 pt priority sem ext \<longrightarrow>
        list_all (\<lambda>e. \<not> isQueueSubmit e \<and> \<not> isFenceAcquire e) evs"
    and su0: "r = Continue \<and> submissionHasWork ?s0 pt priority sem ext \<longrightarrow>
        (\<exists>si f. CallQueueSubmit priority si f \<in> set evs)"
    and st0: "r = Stop \<longrightarrow>
        list_all noPush evs \<and> mLastSubmittedSerials s2 = mLastSubmittedSerials ?s0 \<and>
        (list_all (\<lambda>e. \<not> isQueueSubmit e) evs \<or>
         (\<exists>a si f c. evs = a @ CallQueueSubmit priority si f # c \<and>
            list_all (\<lambda>e. \<not> isQueueSubmit e) a \<and> list_all (\<lambda>e. \<not> isQueueSubmit e) c \<and>
            vkQueueSubmit E (events ?s0 @ a) si f \<noteq> VK_SUCCESS))"
    and fin0: "r = Continue \<longrightarrow>
              PushInFlight q \<in> set evs \<and> b = CommandBatch_new \<and>
              mInFlightCommands s2 \<noteq> [] \<and>
              mQueueSerial (last (mInFlightCommands s2)) = q \<and>
              (\<not> submissionHasWork ?s0 pt priority sem ext \<longrightarrow>
                 mFence (last (mInFlightCommands s2)) = None \<and>
                 mExternalFence (last (mInFlightCommands s2)) = None) \<and>
              mLastSubmittedSerials s2 (qsIndex q) = qsSerial q"
    by blast
  from qu0 w0 have
    qu: "\<not> ?work \<longrightarrow> list_all (\<lambda>e. \<not> isQueueSubmit e \<and> \<not> isFenceAcquire e) evs"
    by simp
  from su0 w0 have
    su: "r = Continue \<and> ?work \<longrightarrow> (\<exists>si f. CallQueueSubmit priority si f \<in> set evs)"
    by simp
  from st0 e0 have st: "r = Stop \<longrightarrow>
        list_all noPush evs \<and> mLastSubmittedSerials s2 = mLastSubmittedSerials s \<and>
        (list_all (\<lambda>e. \<not> isQueueSubmit e) evs \<or>
         (\<exists>a si f c. evs = a @ CallQueueSubmit priority si f # c \<and>
            list_all (\<lambda>e. \<not> isQueueSubmit e) a \<and> list_all (\<lambda>e. \<not> isQueueSubmit e) c \<and>
            vkQueueSubmit E (events s @ Lock QueueSubmitMutex # a) si f \<noteq> VK_SUCCESS))"
    by simp
  from fin0 w0 have fin: "r = Continue \<longrightarrow>
              PushInFlight q \<in> set evs \<and> b = CommandBatch_new \<and>
              mInFlightCommands s2 \<noteq> [] \<and>
              mQueueSerial (last (mInFlightCommands s2)) = q \<and>
              (\<not> ?work \<longrightarrow>
                 mFence (last (mInFlightCommands s2)) = None \<and>
                 mExternalFence (last (mInFlightCommands s2)) = None) \<and>
              mLastSubmittedSerials s2 (qsIndex q) = qsSerial q"
    by simp
  from destroy_post [OF de] obtain evsD where
    evD: "events s3 = events s2 @ evsD" and qD: "list_all quiet evsD"
    by (auto simp: appends_def)
  from frame_CommandBatch_destroy [OF de] have fr: "frame s2 s3" .
  let ?all = "Lock QueueSubmitMutex # evs @ evsD @ [Unlock QueueSubmitMutex]"
  have e: "events s1 = events s @ ?all"
    using ev evD s1 by (simp add: lock_def unlock_def emit_def)
  have nsD: "list_all (\<lambda>e. \<not> isQueueSubmit e) (evsD @ [Unlock QueueSubmitMutex])"
    using qD by (simp add: list_all_iff quiet_defs)
  have npD: "list_all noPush (evsD @ [Unlock QueueSubmitMutex])"
    using qD by (simp add: list_all_iff quiet_defs)
  have calm: "\<not> ?work \<longrightarrow> list_all (\<lambda>e. \<not> isQueueSubmit e \<and> \<not> isFenceAcquire e) ?all"
    using qu qD by (auto simp: list_all_iff quiet_defs)
  have only: "(\<exists>e \<in> set ?all. isQueueSubmit e) \<longrightarrow> ?work"
    using calm by (auto simp: list_all_iff)
  have rings: "mInFlightCommands s1 = mInFlightCommands s2"
    "mLastSubmittedSerials s1 = mLastSubmittedSerials s2"
    using fr s1 by (simp_all add: frame_def ringsKept_def unlock_def emit_def)
  from su have su': "r = Continue \<and> ?work \<longrightarrow> (\<exists>si f. CallQueueSubmit priority si f \<in> set ?all)"
    by auto
  from fin have pu': "r = Continue \<longrightarrow> PushInFlight q \<in> set ?all"
    by auto
  have st': "r = Stop \<longrightarrow>
      list_all noPush ?all \<and> mLastSubmittedSerials s1 = mLastSubmittedSerials s \<and>
      (list_all (\<lambda>e. \<not> isQueueSubmit e) ?all \<or>
       (\<exists>a si f c. ?all = a @ CallQueueSubmit priority si f # c \<and>
          list_all (\<lambda>e. \<not> isQueueSubmit e) a \<and> list_all (\<lambda>e. \<not> isQueueSubmit e) c \<and>
          vkQueueSubmit E (events s @ a) si f \<noteq> VK_SUCCESS))"
  proof
    assume "r = Stop"
    with st have n: "list_all noPush evs"
      and l: "mLastSubmittedSerials s2 = mLastSubmittedSerials s"
      and sh: "list_all (\<lambda>e. \<not> isQueueSubmit e) evs \<or>
         (\<exists>a si f c. evs = a @ CallQueueSubmit priority si f # c \<and>
            list_all (\<lambda>e. \<not> isQueueSubmit e) a \<and> list_all (\<lambda>e. \<not> isQueueSubmit e) c \<and>
            vkQueueSubmit E (events s @ Lock QueueSubmitMutex # a) si f \<noteq> VK_SUCCESS)"
      by simp_all
    have n': "list_all noPush ?all"
      using n npD by (simp add: quiet_defs)
    from sh have "list_all (\<lambda>e. \<not> isQueueSubmit e) ?all \<or>
       (\<exists>a si f c. ?all = a @ CallQueueSubmit priority si f # c \<and>
          list_all (\<lambda>e. \<not> isQueueSubmit e) a \<and> list_all (\<lambda>e. \<not> isQueueSubmit e) c \<and>
          vkQueueSubmit E (events s @ a) si f \<noteq> VK_SUCCESS)"
    proof
      assume "list_all (\<lambda>e. \<not> isQueueSubmit e) evs"
      with nsD have "list_all (\<lambda>e. \<not> isQueueSubmit e) ?all"
        by (simp add: isQueueSubmit_def)
      then show ?thesis ..
    next
      assume "\<exists>a si f c. evs = a @ CallQueueSubmit priority si f # c \<and>
            list_all (\<lambda>e. \<not> isQueueSubmit e) a \<and> list_all (\<lambda>e. \<not> isQueueSubmit e) c \<and>
            vkQueueSubmit E (events s @ Lock QueueSubmitMutex # a) si f \<noteq> VK_SUCCESS"
      then obtain a si f c where x: "evs = a @ CallQueueSubmit priority si f # c"
        "list_all (\<lambda>e. \<not> isQueueSubmit e) a" "list_all (\<lambda>e. \<not> isQueueSubmit e) c"
        "vkQueueSubmit E (events s @ Lock QueueSubmitMutex # a) si f \<noteq> VK_SUCCESS"
        by blast
      with nsD have
        "?all = (Lock QueueSubmitMutex # a) @ CallQueueSubmit priority si f #
            (c @ evsD @ [Unlock QueueSubmitMutex]) \<and>
         list_all (\<lambda>e. \<not> isQueueSubmit e) (Lock QueueSubmitMutex # a) \<and>
         list_all (\<lambda>e. \<not> isQueueSubmit e) (c @ evsD @ [Unlock QueueSubmitMutex]) \<and>
         vkQueueSubmit E (events s @ (Lock QueueSubmitMutex # a)) si f \<noteq> VK_SUCCESS"
        by (simp add: isQueueSubmit_def)
      then show ?thesis by blast
    qed
    with n' l rings show "list_all noPush ?all \<and>
      mLastSubmittedSerials s1 = mLastSubmittedSerials s \<and>
      (list_all (\<lambda>e. \<not> isQueueSubmit e) ?all \<or>
       (\<exists>a si f c. ?all = a @ CallQueueSubmit priority si f # c \<and>
          list_all (\<lambda>e. \<not> isQueueSubmit e) a \<and> list_all (\<lambda>e. \<not> isQueueSubmit e) c \<and>
          vkQueueSubmit E (events s @ a) si f \<noteq> VK_SUCCESS))"
      by simp
  qed
  have cn: "r = Continue \<and> \<not> ?work \<longrightarrow>
      list_all (\<lambda>e. \<not> isQueueSubmit e \<and> \<not> isFenceAcquire e) ?all \<and>
      PushInFlight q \<in> set ?all \<and> mInFlightCommands s1 \<noteq> [] \<and>
      mQueueSerial (last (mInFlightCommands s1)) = q \<and>
      mFence (last (mInFlightCommands s1)) = None \<and>
      mExternalFence (last (mInFlightCommands s1)) = None \<and>
      mLastSubmittedSerials s1 (qsIndex q) = qsSerial q"
    using calm pu' fin rings by simp
  from e only su' cn st' show ?thesis
    by (intro exI [of _ ?all] conjI)
qed

theorem submit_decision_witness:
  "(\<exists>s1. CommandQueue_submitCommands device_ok ExternalContext Unprotected Medium
            VK_NULL_HANDLE None \<lparr>qsIndex = 0, qsSerial = 1\<rparr> state_recorded =
            Some (Continue, s1) \<and>
      submissionHasWork state_recorded Unprotected Medium VK_NULL_HANDLE None \<and>
      (\<exists>si f. CallQueueSubmit Medium si f \<in> set (events s1))) \<and>
   (\<exists>s1. CommandQueue_submitCommands device_ok ExternalContext Unprotected Medium
            VK_NULL_HANDLE None \<lparr>qsIndex = 0, qsSerial = 1\<rparr> state_after_init =
            Some (Continue, s1) \<and>
      \<not> submissionHasWork state_after_init Unprotected Medium VK_NULL_HANDLE None \<and>
      list_all (\<lambda>e. \<not> isQueueSubmit e \<and> \<not> isFenceAcquire e) (events s1) \<and>
      PushInFlight \<lparr>qsIndex = 0, qsSerial = 1\<rparr> \<in> set (events s1) \<and>
      mInFlightCommands s1 \<noteq> [] \<and>
      mQueueSerial (last (mInFlightCommands s1)) = \<lparr>qsIndex = 0, qsSerial = 1\<rparr> \<and>
      mFence (last (mInFlightCommands s1)) = None \<and>
      mExternalFence (last (mInFlightCommands s1)) = None \<and>
      mLastSubmittedSerials s1 0 = 1) \<and>
   (\<exists>s1. CommandQueue_submitCommands device_submit_fails ExternalContext Unprotected Medium
            VK_NULL_HANDLE None \<lparr>qsIndex = 0, qsSerial = 1\<rparr> state_recorded =
            Some (Stop, s1) \<and>
      list_all noPush (events s1) \<and>
      mLastSubmittedSerials s1 = mLastSubmittedSerials state_recorded \<and>
      (\<exists>a si f c. events s1 = a @ CallQueueSubmit Medium si f # c \<and>
         list_all (\<lambda>e. \<not> isQueueSubmit e) a \<and> list_all (\<lambda>e. \<not> isQueueSubmit e) c \<and>
         vkQueueSubmit device_submit_fails a si f \<noteq> VK_SUCCESS))"
proof -
  let ?q = "\<lparr>qsIndex = 0, qsSerial = 1\<rparr>"
  have "map_option fst (CommandQueue_submitCommands device_ok ExternalContext Unprotected
      Medium VK_NULL_HANDLE None ?q state_recorded) = Some Continue"
    by (simp add: submit_defs queue_defs batch_defs fence_defs effect_defs example_defs)
  then obtain s1 where a: "CommandQueue_submitCommands device_ok ExternalContext Unprotected
      Medium VK_NULL_HANDLE None ?q state_recorded = Some (Continue, s1)"
    by auto
  have wa: "submissionHasWork state_recorded Unprotected Medium VK_NULL_HANDLE None"
    by (simp add: submissionHasWork_def example_defs effect_defs)
  have e0: "events state_recorded = []" "events state_after_init = []"
    by (simp_all add: example_defs)
  have "map_option fst (CommandQueue_submitCommands device_ok ExternalContext Unprotected
      Medium VK_NULL_HANDLE None ?q state_after_init) = Some Continue"
    by (simp add: submit_defs queue_defs batch_defs fence_defs effect_defs example_defs)
  then obtain t1 where b: "CommandQueue_submitCommands device_ok ExternalContext Unprotected
      Medium VK_NULL_HANDLE None ?q state_after_init = Some (Continue, t1)"
    by auto
  have wb: "\<not> submissionHasWork state_after_init Unprotected Medium VK_NULL_HANDLE None"
    by (simp add: submissionHasWork_def example_defs effect_defs CommandsState_empty_def)
  have "map_option (\<lambda>(r, s). (r, filter isQueueSubmit (events s)))
      (CommandQueue_submitCommands device_submit_fails ExternalContext Unprotected
      Medium VK_NULL_HANDLE None ?q state_recorded) =
      Some (Stop, [CallQueueSubmit Medium
        \<lparr>sTypeIsSubmitInfo = True, protectedSubmit = False, commandBuffers = [11],
         submitWaitSemaphores = [], submitWaitDstStageMask = [], signalSemaphores = []\<rparr> 7])"
    by (simp add: submit_defs queue_defs batch_defs fence_defs effect_defs example_defs
        isQueueSubmit_def)
  then obtain u1 where c: "CommandQueue_submitCommands device_submit_fails ExternalContext
      Unprotected Medium VK_NULL_HANDLE None ?q state_recorded = Some (Stop, u1)"
    and cs: "filter isQueueSubmit (events u1) \<noteq> []"
    by auto
  from cs have ns: "\<not> list_all (\<lambda>e. \<not> isQueueSubmit e) (events u1)"
    by (auto simp: list_all_iff filter_empty_conv)
  from submit_decision [OF a] wa e0 have
    "\<exists>si f. CallQueueSubmit Medium si f \<in> set (events s1)"
    by auto
  moreover from submit_decision [OF b] wb e0 have
    "list_all (\<lambda>e. \<not> isQueueSubmit e \<and> \<not> isFenceAcquire e) (events t1) \<and>
      PushInFlight ?q \<in> set (events t1) \<and>
      mInFlightCommands t1 \<noteq> [] \<and>
      mQueueSerial (last (mInFlightCommands t1)) = ?q \<and>
      mFence (last (mInFlightCommands t1)) = None \<and>
      mExternalFence (last (mInFlightCommands t1)) = None \<and>
      mLastSubmittedSerials t1 0 = 1"
    by auto
  moreover from submit_decision [OF c] e0 ns have
    "list_all noPush (events u1) \<and>
      mLastSubmittedSerials u1 = mLastSubmittedSerials state_recorded \<and>
      (\<exists>a si f c. events u1 = a @ CallQueueSubmit Medium si f # c \<and>
         list_all (\<lambda>e. \<not> isQueueSubmit e) a \<and> list_all (\<lambda>e. \<not> isQueueSubmit e) c \<and>
         vkQueueSubmit device_submit_fails a si f \<noteq> VK_SUCCESS)"
    by auto
  ultimately show ?thesis
    using a b c wa wb by blast
qed

subsection \<open>Waiting with a user timeout on an unsubmitted use\<close>

text \<open>
  C10: \<open>waitForResourceUseToFinishWithUserTimeout\<close>, called with a resource use that is
  not yet observed as submitted, returns \<open>Continue\<close> with \<open>VK_TIMEOUT\<close> in the
  out-parameter, whatever that held before, and the state it returns in is the state it
  was called in: no event is added, so no fence is waited on and no lock taken, and the
  rings and the serial trackers are as they were.
\<close>

theorem userTimeout_unsubmitted:
  assumes "\<not> hasResourceUseSubmitted use s"
  shows "CommandQueue_waitForResourceUseToFinishWithUserTimeout E ctx use timeout result0 s =
           Some (Continue, VK_TIMEOUT, s)"
  using assms by (simp add: CommandQueue_waitForResourceUseToFinishWithUserTimeout_def)

theorem userTimeout_unsubmitted_witness:
  "\<not> hasResourceUseSubmitted [\<lparr>qsIndex = 0, qsSerial = 3\<rparr>] state_two_in_flight \<and>
   CommandQueue_waitForResourceUseToFinishWithUserTimeout device_ok ExternalContext
     [\<lparr>qsIndex = 0, qsSerial = 3\<rparr>] 5 VK_SUCCESS state_two_in_flight =
     Some (Continue, VK_TIMEOUT, state_two_in_flight) \<and>
   events state_two_in_flight = [] \<and>
   map mQueueSerial (mInFlightCommands state_two_in_flight) =
     [\<lparr>qsIndex = 0, qsSerial = 1\<rparr>, \<lparr>qsIndex = 0, qsSerial = 2\<rparr>]"
proof -
  have h: "\<not> hasResourceUseSubmitted [\<lparr>qsIndex = 0, qsSerial = 3\<rparr>] state_two_in_flight"
    by (simp add: hasResourceUseSubmitted_def example_defs)
  from userTimeout_unsubmitted [OF h, of device_ok ExternalContext 5 VK_SUCCESS] h
  show ?thesis
    by (simp add: example_defs batch_defs)
qed

subsection \<open>Pending errors\<close>

lemma Error_eta:
  "\<lparr>errorCode = errorCode err, errFile = errFile err, errFunction = errFunction err,
    errLine = errLine err\<rparr> = (err :: Error)"
  by (cases err) simp

lemma checkAndPopPendingError_loop_external:
  "mErrors s = errs \<Longrightarrow>
   checkAndPopPendingError_loop ExternalContext s =
     Some (s\<lparr>mErrors := [], events := events s @ map ContextHandleError errs\<rparr>)"
proof (induction errs arbitrary: s)
  case Nil
  then show ?case
    by (subst checkAndPopPendingError_loop.simps) simp
next
  case (Cons err rest)
  let ?s1 = "emit (ContextHandleError err) (s\<lparr>mErrors := rest\<rparr>)"
  have "mErrors ?s1 = rest" by (simp add: emit_def)
  from Cons.IH [OF this] Cons.prems show ?case
    by (subst checkAndPopPendingError_loop.simps)
       (simp add: Context_handleError_def emit_def Error_eta)
qed

text \<open>
  C6: \<open>checkAndPopPendingError\<close>, with a context of the caller, returns \<open>Continue\<close>
  when the error queue is empty and leaves it empty; when errors are pending it hands
  every pending error record to the context's error handler, oldest first, empties the
  queue and returns \<open>Stop\<close>, and a call right after it returns \<open>Continue\<close>.
\<close>

theorem pending_errors_once:
  "(mErrors s = [] \<longrightarrow>
      (\<exists>s1. checkAndPopPendingError ExternalContext s = Some (Continue, s1) \<and>
         mErrors s1 = [] \<and>
         events s1 = events s @ [Lock ErrorMutex, Unlock ErrorMutex])) \<and>
   (mErrors s \<noteq> [] \<longrightarrow>
      (\<exists>s1. checkAndPopPendingError ExternalContext s = Some (Stop, s1) \<and>
         mErrors s1 = [] \<and>
         events s1 =
           events s @ [Lock ErrorMutex] @ map ContextHandleError (mErrors s) @
           [Unlock ErrorMutex] \<and>
         (\<exists>s2. checkAndPopPendingError ExternalContext s1 = Some (Continue, s2) \<and>
            mErrors s2 = [] \<and>
            events s2 = events s1 @ [Lock ErrorMutex, Unlock ErrorMutex])))"
proof -
  have empty: "mErrors t = [] \<Longrightarrow>
      checkAndPopPendingError ExternalContext t =
        Some (Continue, unlock ErrorMutex (lock ErrorMutex t))" for t
    by (simp add: checkAndPopPendingError_def with_lock_def lock_def emit_def)
  have pending: "mErrors t \<noteq> [] \<Longrightarrow>
      checkAndPopPendingError ExternalContext t =
        Some (Stop, unlock ErrorMutex
                      ((lock ErrorMutex t)
                         \<lparr>mErrors := [],
                          events := events (lock ErrorMutex t) @
                                    map ContextHandleError (mErrors t)\<rparr>))" for t
    using checkAndPopPendingError_loop_external [of "lock ErrorMutex t" "mErrors t"]
    by (simp add: checkAndPopPendingError_def with_lock_def lock_def emit_def)
  show ?thesis
  proof (intro conjI impI)
    assume "mErrors s = []"
    then show "\<exists>s1. checkAndPopPendingError ExternalContext s = Some (Continue, s1) \<and>
         mErrors s1 = [] \<and> events s1 = events s @ [Lock ErrorMutex, Unlock ErrorMutex]"
      by (simp add: empty lock_def unlock_def emit_def)
  next
    assume ne: "mErrors s \<noteq> []"
    let ?s1 = "unlock ErrorMutex
                      ((lock ErrorMutex s)
                         \<lparr>mErrors := [],
                          events := events (lock ErrorMutex s) @
                                    map ContextHandleError (mErrors s)\<rparr>)"
    have e1: "mErrors ?s1 = []" by (simp add: unlock_def emit_def)
    from empty [OF e1] pending [OF ne] e1
    show "\<exists>s1. checkAndPopPendingError ExternalContext s = Some (Stop, s1) \<and>
         mErrors s1 = [] \<and>
         events s1 =
           events s @ [Lock ErrorMutex] @ map ContextHandleError (mErrors s) @
           [Unlock ErrorMutex] \<and>
         (\<exists>s2. checkAndPopPendingError ExternalContext s1 = Some (Continue, s2) \<and>
            mErrors s2 = [] \<and>
            events s2 = events s1 @ [Lock ErrorMutex, Unlock ErrorMutex])"
      by (simp add: lock_def unlock_def emit_def)
  qed
qed

theorem pending_errors_once_witness:
  "mErrors state_after_init = [] \<and>
   (\<exists>s1. checkAndPopPendingError ExternalContext state_after_init = Some (Continue, s1) \<and>
      mErrors s1 = [] \<and> events s1 = [Lock ErrorMutex, Unlock ErrorMutex]) \<and>
   mErrors state_two_errors \<noteq> [] \<and>
   (\<exists>s1. checkAndPopPendingError ExternalContext state_two_errors = Some (Stop, s1) \<and>
      mErrors s1 = [] \<and>
      events s1 =
        [Lock ErrorMutex,
         ContextHandleError
           \<lparr>errorCode = VK_ERROR_OUT_OF_HOST_MEMORY, errFile = ''CommandProcessor.cpp'',
            errFunction = ''submitCommands'', errLine = 1497\<rparr>,
         ContextHandleError
           \<lparr>errorCode = VK_TIMEOUT, errFile = ''CommandProcessor.cpp'',
            errFunction = ''finishOneCommandBatchLocked'', errLine = 1728\<rparr>,
         Unlock ErrorMutex] \<and>
      (\<exists>s2. checkAndPopPendingError ExternalContext s1 = Some (Continue, s2) \<and>
         mErrors s2 = []))"
proof -
  have a: "mErrors state_after_init = []" "events state_after_init = []"
    by (simp_all add: state_after_init_def)
  have b: "mErrors state_two_errors \<noteq> []" "events state_two_errors = []"
    by (simp_all add: state_two_errors_def state_after_init_def)
  have c: "mErrors state_two_errors =
      [\<lparr>errorCode = VK_ERROR_OUT_OF_HOST_MEMORY, errFile = ''CommandProcessor.cpp'',
        errFunction = ''submitCommands'', errLine = 1497\<rparr>,
       \<lparr>errorCode = VK_TIMEOUT, errFile = ''CommandProcessor.cpp'',
        errFunction = ''finishOneCommandBatchLocked'', errLine = 1728\<rparr>]"
    by (simp add: state_two_errors_def)
  from pending_errors_once [of state_after_init] pending_errors_once [of state_two_errors]
    a b c
  show ?thesis
    by (simp only: simp_thms append_Nil append_Cons list.map) blast
qed

subsection \<open>Present: results that are not fatal\<close>


lemma copyPresentInfo_chain_fields:
  assumes "copyPresentInfo_chain p other = Some c"
  shows "presentSType c = presentSType p \<and> swapchainCount c = swapchainCount p \<and>
         swapchain c = swapchain p \<and> imageIndex c = imageIndex p \<and>
         waitSemaphoreCount c = waitSemaphoreCount p \<and>
         presentWaitSemaphore c = presentWaitSemaphore p \<and> hasResults c = hasResults p \<and>
         otherStructure c = otherStructure p \<and> otherStructure other = None \<and>
         presentRegions c = presentRegions other \<and>
         (case presentFenceInfo other of
            None \<Rightarrow> presentFenceInfo c = presentFenceInfo p
          | Some (n, fence) \<Rightarrow> n = 1 \<and> presentFenceInfo c = Some (1, fence)) \<and>
         (case presentModeInfo other of
            None \<Rightarrow> presentModeInfo c = presentModeInfo p
          | Some (n, mode) \<Rightarrow> n = 1 \<and> presentModeInfo c = Some (1, mode)) \<and>
         VkPresentInfoKHR.more c = VkPresentInfoKHR.more p"
proof -
  from assms have o: "otherStructure other = None"
    by (simp add: copyPresentInfo_chain_def split: if_splits)
  let ?p1 = "p\<lparr>presentRegions := presentRegions other\<rparr>"
  let ?X = "case presentFenceInfo other of
                None \<Rightarrow> Some ?p1
              | Some (n, fence) \<Rightarrow>
                  if n \<noteq> 1 then None
                  else Some (?p1\<lparr>presentFenceInfo := Some (1, fence)\<rparr>)"
  from assms o obtain p2 where x: "?X = Some p2"
    and y: "(case presentModeInfo other of
               None \<Rightarrow> Some p2
             | Some (n, mode) \<Rightarrow>
                 if n \<noteq> 1 then None
                 else Some (p2\<lparr>presentModeInfo := Some (1, mode)\<rparr>)) = Some c"
    by (cases ?X) (simp_all add: copyPresentInfo_chain_def Let_def)
  from x have f2: "presentSType p2 = presentSType p \<and> swapchainCount p2 = swapchainCount p \<and>
         swapchain p2 = swapchain p \<and> imageIndex p2 = imageIndex p \<and>
         waitSemaphoreCount p2 = waitSemaphoreCount p \<and>
         presentWaitSemaphore p2 = presentWaitSemaphore p \<and> hasResults p2 = hasResults p \<and>
         otherStructure p2 = otherStructure p \<and>
         presentRegions p2 = presentRegions other \<and>
         presentModeInfo p2 = presentModeInfo p \<and>
         (case presentFenceInfo other of
            None \<Rightarrow> presentFenceInfo p2 = presentFenceInfo p
          | Some (n, fence) \<Rightarrow> n = 1 \<and> presentFenceInfo p2 = Some (1, fence)) \<and>
         VkPresentInfoKHR.more p2 = VkPresentInfoKHR.more p"
    by (cases "presentFenceInfo other") (auto split: if_splits)
  from y have fc: "presentSType c = presentSType p2 \<and> swapchainCount c = swapchainCount p2 \<and>
         swapchain c = swapchain p2 \<and> imageIndex c = imageIndex p2 \<and>
         waitSemaphoreCount c = waitSemaphoreCount p2 \<and>
         presentWaitSemaphore c = presentWaitSemaphore p2 \<and> hasResults c = hasResults p2 \<and>
         otherStructure c = otherStructure p2 \<and>
         presentRegions c = presentRegions p2 \<and>
         presentFenceInfo c = presentFenceInfo p2 \<and>
         (case presentModeInfo other of
            None \<Rightarrow> presentModeInfo c = presentModeInfo p2
          | Some (n, mode) \<Rightarrow> n = 1 \<and> presentModeInfo c = Some (1, mode)) \<and>
         VkPresentInfoKHR.more c = VkPresentInfoKHR.more p2"
    by (cases "presentModeInfo other") (auto split: if_splits)
  from f2 fc o show ?thesis
    by (cases "presentFenceInfo other"; cases "presentModeInfo other") auto
qed

lemma copyPresentInfo_fields:
  assumes "CommandProcessorTask_copyPresentInfo VkPresentInfoKHR_zero other = Some c"
    and "presentSType other \<noteq> 0"
  shows "presentSType c = presentSType other \<and>
         swapchainCount other \<le> 1 \<and> swapchainCount c = swapchainCount other \<and>
         (if swapchainCount other = 1
          then swapchain c = swapchain other \<and> imageIndex c = imageIndex other
          else swapchain c = VK_NULL_HANDLE \<and> imageIndex c = 0) \<and>
         waitSemaphoreCount other \<le> 1 \<and> waitSemaphoreCount c = waitSemaphoreCount other \<and>
         (if waitSemaphoreCount other = 1
          then presentWaitSemaphore c = presentWaitSemaphore other
          else presentWaitSemaphore c = VK_NULL_HANDLE) \<and>
         hasResults c = hasResults other \<and>
         otherStructure c = None \<and> otherStructure other = None \<and>
         presentRegions c = presentRegions other \<and>
         (case presentFenceInfo other of
            None \<Rightarrow> presentFenceInfo c = None
          | Some (n, fence) \<Rightarrow> n = 1 \<and> presentFenceInfo c = Some (1, fence)) \<and>
         (case presentModeInfo other of
            None \<Rightarrow> presentModeInfo c = None
          | Some (n, mode) \<Rightarrow> n = 1 \<and> presentModeInfo c = Some (1, mode)) \<and>
         VkPresentInfoKHR.more c = ()"
proof -
  let ?p0 = "VkPresentInfoKHR_zero\<lparr>presentSType := presentSType other, presentRegions := None,
                   presentFenceInfo := None, presentModeInfo := None,
                   otherStructure := None\<rparr>"
  let ?X = "if swapchainCount other > 0 then
                (if swapchainCount other \<noteq> 1 then None
                 else Some (?p0\<lparr>swapchainCount := 1, swapchain := swapchain other,
                               imageIndex := imageIndex other\<rparr>))
              else Some ?p0"
  from assms obtain p1 where x: "?X = Some p1"
    and r1: "(case (if waitSemaphoreCount other > 0 then
                     (if waitSemaphoreCount other \<noteq> 1 then None
                      else Some (p1\<lparr>waitSemaphoreCount := 1,
                                    presentWaitSemaphore := presentWaitSemaphore other\<rparr>))
                   else Some p1) of
               None \<Rightarrow> None
             | Some p2 \<Rightarrow> copyPresentInfo_chain (p2\<lparr>hasResults := hasResults other\<rparr>) other) =
            Some c"
    by (cases ?X) (simp_all add: CommandProcessorTask_copyPresentInfo_def Let_def)
  let ?Y = "if waitSemaphoreCount other > 0 then
                     (if waitSemaphoreCount other \<noteq> 1 then None
                      else Some (p1\<lparr>waitSemaphoreCount := 1,
                                    presentWaitSemaphore := presentWaitSemaphore other\<rparr>))
                   else Some p1"
  from r1 obtain p2 where y: "?Y = Some p2"
    and ch: "copyPresentInfo_chain (p2\<lparr>hasResults := hasResults other\<rparr>) other = Some c"
    by (cases ?Y) simp_all
  from x have f1: "presentSType p1 = presentSType other \<and>
         swapchainCount other \<le> 1 \<and> swapchainCount p1 = swapchainCount other \<and>
         (if swapchainCount other = 1
          then swapchain p1 = swapchain other \<and> imageIndex p1 = imageIndex other
          else swapchain p1 = VK_NULL_HANDLE \<and> imageIndex p1 = 0) \<and>
         waitSemaphoreCount p1 = 0 \<and> presentWaitSemaphore p1 = VK_NULL_HANDLE \<and>
         otherStructure p1 = None \<and> presentFenceInfo p1 = None \<and>
         presentModeInfo p1 = None \<and> VkPresentInfoKHR.more p1 = ()"
    by (cases "swapchainCount other = 0"; cases "swapchainCount other = 1")
       (auto simp: VkPresentInfoKHR_zero_def split: if_splits)
  from y have f2: "presentSType p2 = presentSType p1 \<and>
         swapchainCount p2 = swapchainCount p1 \<and> swapchain p2 = swapchain p1 \<and>
         imageIndex p2 = imageIndex p1 \<and>
         waitSemaphoreCount other \<le> 1 \<and>
         (if waitSemaphoreCount other = 1
          then waitSemaphoreCount p2 = 1 \<and> presentWaitSemaphore p2 = presentWaitSemaphore other
          else waitSemaphoreCount p2 = waitSemaphoreCount p1 \<and>
               presentWaitSemaphore p2 = presentWaitSemaphore p1) \<and>
         otherStructure p2 = otherStructure p1 \<and> presentFenceInfo p2 = presentFenceInfo p1 \<and>
         presentModeInfo p2 = presentModeInfo p1 \<and>
         VkPresentInfoKHR.more p2 = VkPresentInfoKHR.more p1"
    by (cases "waitSemaphoreCount other = 0"; cases "waitSemaphoreCount other = 1")
       (auto split: if_splits)
  note f3 = copyPresentInfo_chain_fields [OF ch]
  from f1 f2 f3 show ?thesis
    by (cases "presentFenceInfo other"; cases "presentModeInfo other";
        cases "swapchainCount other = 1"; cases "waitSemaphoreCount other = 1") auto
qed



lemma copyPresentInfo_total:
  assumes "swapchainCount other \<le> 1" and "waitSemaphoreCount other \<le> 1"
    and "otherStructure other = None"
    and "case presentFenceInfo other of None \<Rightarrow> True | Some (n, fence) \<Rightarrow> n = 1"
    and "case presentModeInfo other of None \<Rightarrow> True | Some (n, mode) \<Rightarrow> n = 1"
  shows "\<exists>c. CommandProcessorTask_copyPresentInfo VkPresentInfoKHR_zero other = Some c"
proof (cases "presentSType other = 0")
  case True
  then show ?thesis by (simp add: CommandProcessorTask_copyPresentInfo_def)
next
  case False
  have ch: "\<exists>c. copyPresentInfo_chain p other = Some c" for p
    using assms(3-5)
    by (cases "presentFenceInfo other"; cases "presentModeInfo other")
       (auto simp: copyPresentInfo_chain_def Let_def)
  from assms(1) have s: "swapchainCount other = 0 \<or> swapchainCount other = 1" by auto
  from assms(2) have w: "waitSemaphoreCount other = 0 \<or> waitSemaphoreCount other = 1" by auto
  from s w False ch show ?thesis
    by (auto simp: CommandProcessorTask_copyPresentInfo_def Let_def)
qed

lemma copyPresentInfo_copy:
  assumes "CommandProcessorTask_copyPresentInfo VkPresentInfoKHR_zero other = Some c"
  shows "CommandProcessorTask_copyPresentInfo VkPresentInfoKHR_zero c = Some c"
proof (cases "presentSType other = 0")
  case True
  with assms have "c = VkPresentInfoKHR_zero"
    by (simp add: CommandProcessorTask_copyPresentInfo_def)
  then show ?thesis
    by (simp add: CommandProcessorTask_copyPresentInfo_def VkPresentInfoKHR_zero_def)
next
  case False
  note f = copyPresentInfo_fields [OF assms False]
  from f False have nz: "presentSType c \<noteq> 0" by simp
  have "\<exists>d. CommandProcessorTask_copyPresentInfo VkPresentInfoKHR_zero c = Some d"
    using f
    by (intro copyPresentInfo_total)
       (cases "presentFenceInfo other"; cases "presentModeInfo other"; auto)+
  then obtain d where d: "CommandProcessorTask_copyPresentInfo VkPresentInfoKHR_zero c = Some d"
    by blast
  note g = copyPresentInfo_fields [OF d nz]
  have "d = c"
  proof (rule VkPresentInfoKHR.equality)
    show "presentFenceInfo d = presentFenceInfo c"
      using f g by (cases "presentFenceInfo other"; cases "presentFenceInfo c") auto
    show "presentModeInfo d = presentModeInfo c"
      using f g by (cases "presentModeInfo other"; cases "presentModeInfo c") auto
    show "swapchain d = swapchain c" "imageIndex d = imageIndex c"
      using f g by (cases "swapchainCount other = 1"; auto)+
    show "presentWaitSemaphore d = presentWaitSemaphore c"
      using f g by (cases "waitSemaphoreCount other = 1"; auto)
  qed (use f g in simp_all)
  with d show ?thesis by simp
qed



subsection \<open>CommandProcessor: waiting for a use to be submitted\<close>

text \<open>Executing a task leaves the task queue as it is.\<close>

lemma tasks_onCommandBatchFinishedLocked:
  "onCommandBatchFinishedLocked E s = Some s1 \<Longrightarrow> mTaskQueue s1 = mTaskQueue s"
  by (auto simp: onCommandBatchFinishedLocked_def moveInFlightBatchToFinishedQueueLocked_def
        setLastCompleted_def emit_def split: option.splits if_splits)

lemma tasks_finishOne:
  "finishOneCommandBatchLocked E ctx t s = Some (r, s1) \<Longrightarrow> mTaskQueue s1 = mTaskQueue s"
  by (auto simp: finishOneCommandBatchLocked_def frame_def
      split: option.splits bool.splits prod.splits Result.splits
      dest!: frame_waitFence frame_ANGLE_VK_TRY tasks_onCommandBatchFinishedLocked)

lemma tasks_release_body:
  assumes "releaseFinishedCommandsLocked_body E ctx s = Some (r, s1)"
  shows "mTaskQueue s1 = mTaskQueue s"
  using assms
  by (auto simp: releaseFinishedCommandsLocked_body_def popFinishedBatchLocked_def Let_def
        frame_def
      split: list.splits option.splits if_splits prod.splits
      dest!: frame_CommandBatch_release)

lemma tasks_release_loop:
  "releaseFinishedCommandsLocked E ctx s = Some (r, s1) \<Longrightarrow> mTaskQueue s1 = mTaskQueue s"
proof (induction E ctx s arbitrary: r s1 rule: releaseFinishedCommandsLocked.induct)
  case (1 E ctx s)
  show ?case
  proof (cases "mFinishedCommandBatches s = []")
    case True
    with "1.prems" show ?thesis
      by (simp add: releaseFinishedCommandsLocked.simps [of E ctx s])
  next
    case False
    with "1.prems" obtain r0 s0 where
      body: "releaseFinishedCommandsLocked_body E ctx s = Some (r0, s0)"
      by (auto simp: releaseFinishedCommandsLocked.simps [of E ctx s] split: option.splits)
    note t0 = tasks_release_body [OF body]
    show ?thesis
    proof (cases r0)
      case Stop
      with body False "1.prems" t0 show ?thesis
        by (simp add: releaseFinishedCommandsLocked.simps [of E ctx s])
    next
      case Continue
      with body False "1.prems" have "releaseFinishedCommandsLocked E ctx s0 = Some (r, s1)"
        by (simp add: releaseFinishedCommandsLocked.simps [of E ctx s])
      from "1.IH" [OF False body refl Continue this] t0 show ?thesis by simp
    qed
  qed
qed

lemma tasks_throttle:
  assumes "queueSubmitLocked_throttle E ctx s = Some (r, s1)"
  shows "mTaskQueue s1 = mTaskQueue s"
proof -
  have a: "queueSubmitLocked_makeRoom E ctx t = Some (r0, t1) \<Longrightarrow> mTaskQueue t1 = mTaskQueue t"
    for t r0 t1
    by (auto simp: queueSubmitLocked_makeRoom_def lock_def unlock_def emit_def
        split: if_splits elim!: with_lock_Some dest!: tasks_finishOne)
  have b: "queueSubmitLocked_reclaim E ctx t = Some (r0, t1) \<Longrightarrow> mTaskQueue t1 = mTaskQueue t"
    for t r0 t1
    by (auto simp: queueSubmitLocked_reclaim_def lock_def unlock_def emit_def
        split: if_splits elim!: with_lock_Some dest!: tasks_release_loop)
  from assms show ?thesis
    by (auto simp: queueSubmitLocked_throttle_def
        split: option.splits Result.splits if_splits dest!: a b)
qed

lemma tasks_queueSubmitLocked:
  assumes "queueSubmitLocked E ctx priority si b q s = Some (r, b1, s1)"
  shows "mTaskQueue s1 = mTaskQueue s"
  using assms
  by (auto simp: queueSubmitLocked_def pushInFlightBatchLocked_def setLastSubmitted_def
        emit_def frame_def Let_def
      split: option.splits Result.splits if_splits
      dest!: tasks_throttle frame_queueSubmitLocked_submit)

lemma tasks_initFence:
  "CommandBatch_initFence E b s = Some (r, b4, s1) \<Longrightarrow> mTaskQueue s1 = mTaskQueue s"
  by (auto simp: CommandBatch_initFence_def RecyclableFence_init_def FenceRecycler_fetch_def
        Recycler_fetch_def lock_def unlock_def emit_def Let_def
      split: option.splits if_splits prod.splits bool.splits)

lemma tasks_DeviceScoped_exit:
  "DeviceScoped_exit (Some (r, b, s)) = Some (r1, s1) \<Longrightarrow> mTaskQueue s1 = mTaskQueue s"
  by (auto simp: DeviceScoped_exit_def frame_def dest!: frame_CommandBatch_destroy)

lemma tasks_submitCommands:
  assumes "CommandQueue_submitCommands E ctx pt priority sem ext q s = Some (r, s1)"
  shows "mTaskQueue s1 = mTaskQueue s"
proof -
  let ?s0 = "lock QueueSubmitMutex s"
  from assms obtain b s2 r1 s3 where
    sc: "submitCommands_scope E ctx pt priority sem ext q ?s0 = Some (r, b, s2)"
    and ex: "DeviceScoped_exit (Some (r, b, s2)) = Some (r1, s3)"
    and s1: "s1 = unlock QueueSubmitMutex s3"
    by (auto simp: CommandQueue_submitCommands_def DeviceScoped_exit_def
        elim!: with_lock_Some split: option.splits)
  have "mTaskQueue s2 = mTaskQueue ?s0"
    using sc
    by (auto simp: submitCommands_scope_def frame_def Let_def
        split: option.splits Result.splits if_splits prod.splits
        dest!: getCommands_post tasks_queueSubmitLocked tasks_initFence frame_ANGLE_VK_TRY)
  with tasks_DeviceScoped_exit [OF ex] s1 show ?thesis
    by (simp add: lock_def unlock_def emit_def)
qed

lemma tasks_queueSubmitOneOff:
  assumes "CommandQueue_queueSubmitOneOff E ctx pt priority cb ws wm q s = Some (r, s1)"
  shows "mTaskQueue s1 = mTaskQueue s"
proof -
  let ?s0 = "lock QueueSubmitMutex s"
  from assms obtain b s2 r1 s3 where
    sc: "queueSubmitOneOff_scope E ctx pt priority cb ws wm q ?s0 = Some (r, b, s2)"
    and ex: "DeviceScoped_exit (Some (r, b, s2)) = Some (r1, s3)"
    and s1: "s1 = unlock QueueSubmitMutex s3"
    by (auto simp: CommandQueue_queueSubmitOneOff_def DeviceScoped_exit_def
        elim!: with_lock_Some split: option.splits)
  have "mTaskQueue s2 = mTaskQueue ?s0"
    using sc
    by (auto simp: queueSubmitOneOff_scope_def frame_def Let_def
        split: option.splits Result.splits if_splits prod.splits
        dest!: tasks_queueSubmitLocked tasks_initFence frame_ANGLE_VK_TRY)
  with tasks_DeviceScoped_exit [OF ex] s1 show ?thesis
    by (simp add: lock_def unlock_def emit_def)
qed

lemma tasks_flushCommands:
  assumes "CommandPoolAccess_flushCommands E ctx pt priority c s = Some (r, s1)"
  shows "mTaskQueue s1 = mTaskQueue s"
proof -
  have a: "ensurePrimaryCommandBufferValidLocked E ctx pt priority t = Some (r0, t1) \<Longrightarrow>
      mTaskQueue t1 = mTaskQueue t" for t r0 t1
    by (auto simp: ensurePrimaryCommandBufferValidLocked_def Let_def frame_def emit_def
        split: if_splits option.splits prod.splits Result.splits dest!: frame_ANGLE_VK_TRY)
  from assms show ?thesis
    by (auto simp: CommandPoolAccess_flushCommands_def lock_def unlock_def emit_def frame_def
        elim!: with_lock_Some split: option.splits Result.splits
        dest!: a frame_ANGLE_VK_TRY)
qed

lemma tasks_processTask:
  assumes "processTask E task s = Some (r, s1)"
  shows "mTaskQueue s1 = mTaskQueue s"
proof (cases task)
  case Invalid
  with assms show ?thesis by simp
next
  case (FlushWaitSemaphores pt priority sems masks)
  with assms show ?thesis
    by (auto simp: CommandPoolAccess_flushWaitSemaphores_def Let_def lock_def unlock_def
        emit_def split: if_splits)
next
  case (ProcessOutsideRenderPassCommands pt priority c)
  with assms show ?thesis
    by (auto simp: emit_def split: option.splits Result.splits dest!: tasks_flushCommands)
next
  case (ProcessRenderPassCommands pt priority c rp fb)
  with assms show ?thesis
    by (auto simp: emit_def split: option.splits Result.splits dest!: tasks_flushCommands)
next
  case (FlushAndQueueSubmit sem ext pt priority q)
  with assms show ?thesis
    by (auto split: option.splits Result.splits dest!: tasks_submitCommands)
next
  case (OneOffQueueSubmit cb pt priority ws wm q)
  with assms show ?thesis
    by (auto split: option.splits Result.splits dest!: tasks_queueSubmitOneOff)
next
  case (Present priority info status)
  with assms show ?thesis
    by (auto simp: CommandProcessor_present_def CommandQueue_queuePresent_def
        CommandProcessor_handleError_def CommandProcessor_handleDeviceLost_def lock_def
        unlock_def emit_def Let_def
        split: option.splits if_splits)
qed

text \<open>
  On a device that is not lost every task of a well-formed processor returns, and a task
  that returns \<open>Continue\<close> leaves the processor well formed for the rest of the queue.
\<close>

lemma handleError_total:
  assumes "code \<noteq> VK_SUCCESS" and "code \<noteq> VK_ERROR_DEVICE_LOST"
  shows "\<exists>s1. CommandProcessor_handleError code file func ln s = Some s1 \<and> frame s s1"
  using assms
  by (simp add: CommandProcessor_handleError_def frame_def ringsKept_def lock_def unlock_def
      emit_def Let_def)

lemma ANGLE_VK_TRY_total:
  assumes "r \<noteq> VK_ERROR_DEVICE_LOST"
  shows "\<exists>res s1. ANGLE_VK_TRY ctx func ln r s = Some (res, s1) \<and> frame s s1 \<and>
           (res = Continue \<longleftrightarrow> r = VK_SUCCESS)"
proof (cases "r = VK_SUCCESS")
  case True
  then show ?thesis by (simp add: ANGLE_VK_TRY_def frame_refl)
next
  case False
  with assms handleError_total [of r thisFile func ln s] show ?thesis
    by (cases ctx) (auto simp: ANGLE_VK_TRY_def Context_handleError_def frame_emit)
qed

lemma queue_ok_ringsKept:
  "ringsKept s s1 \<Longrightarrow> queue_ok E serials s \<Longrightarrow> queue_ok E serials s1"
  by (simp add: queue_ok_def ringsKept_def serialCompleted_def)

lemma queue_ok_frame:
  "frame s s1 \<Longrightarrow> queue_ok E serials s \<Longrightarrow> queue_ok E serials s1"
  by (auto simp: frame_def intro: queue_ok_ringsKept)

lemma others_refl: "others s s" by (simp add: others_def)
lemma others_trans [trans]: "others s s1 \<Longrightarrow> others s1 s2 \<Longrightarrow> others s s2"
  by (simp add: others_def)
lemma others_frame: "frame s s1 \<Longrightarrow> others s s1" by (simp add: frame_def others_def)

lemma queue_ok_finish:
  assumes ok: "queue_ok E serials s" and inf: "mInFlightCommands s = b # rest"
  shows "\<exists>s1. onCommandBatchFinishedLocked E s = Some s1 \<and> queue_ok E serials s1 \<and>
           others s s1 \<and> mInFlightCommands s1 = rest"
proof -
  let ?q = "mQueueSerial b"
  let ?s1 = "(setLastCompleted ?q s)\<lparr>mFinishedCommandBatches := mFinishedCommandBatches s @ [b],
                mInFlightCommands := rest\<rparr>"
  from ok inf have bok: "batch_ok b" by (simp add: queue_ok_def)
  from ok inf have room: "length (mFinishedCommandBatches s) < kMaxFinishedCommandsLimit E"
    by (simp add: queue_ok_def)
  from bok inf room have run: "onCommandBatchFinishedLocked E s = Some ?s1"
    by (simp add: onCommandBatchFinishedLocked_def moveInFlightBatchToFinishedQueueLocked_def
        FixedQueue_front_def FixedQueue_push_def FixedQueue_pop_def FixedQueue_full_def
        setLastCompleted_def emit_def CommandBatch_getQueueSerial_def batch_ok_def)
  from ok inf have srt: "sorted_wrt serialOrder
      (map mQueueSerial (mFinishedCommandBatches s) @ ?q # map mQueueSerial rest @ serials)"
    by (simp add: queue_ok_def)
  then have before: "\<forall>f \<in> set (mFinishedCommandBatches s). serialOrder (mQueueSerial f) ?q"
    by (auto simp: sorted_wrt_append)
  from ok have fin: "\<forall>f \<in> set (mFinishedCommandBatches s).
      batch_ok f \<and> serialCompleted (mQueueSerial f) s"
    by (simp add: queue_ok_def list_all_iff)
  have cmpl: "\<forall>f \<in> set (mFinishedCommandBatches s @ [b]). serialCompleted (mQueueSerial f) ?s1"
    using before fin
    by (auto simp: serialCompleted_def setLastCompleted_def emit_def serialOrder_def)
  have "queue_ok E serials ?s1"
    unfolding queue_ok_def
  proof (intro conjI)
    show "list_all (\<lambda>b. batch_ok b \<and> serialCompleted (mQueueSerial b) ?s1)
        (mFinishedCommandBatches ?s1)"
      using cmpl fin bok by (auto simp: list_all_iff setLastCompleted_def emit_def)
    show "sorted_wrt serialOrder
        (map mQueueSerial (mFinishedCommandBatches ?s1 @ mInFlightCommands ?s1) @ serials)"
      using srt by (simp add: setLastCompleted_def emit_def)
  qed (use ok inf in \<open>simp_all add: queue_ok_def setLastCompleted_def emit_def\<close>)
  moreover have "others s ?s1" by (simp add: others_def setLastCompleted_def emit_def)
  ultimately show ?thesis using run by simp
qed

lemma finishOne_ok:
  assumes dev: "device_not_lost E" and ok: "queue_ok E serials s"
    and inf: "mInFlightCommands s \<noteq> []"
  shows "\<exists>r s1. finishOneCommandBatchLocked E ctx t s = Some (r, s1) \<and> queue_ok E serials s1 \<and>
           others s s1 \<and>
           (r = Continue \<longrightarrow> length (mInFlightCommands s1) < length (mInFlightCommands s))"
proof -
  from inf obtain b rest where br: "mInFlightCommands s = b # rest"
    by (cases "mInFlightCommands s") auto
  from ok br have bok: "batch_ok b" by (simp add: queue_ok_def)
  then obtain hf where hf: "hasFence b = Some hf" by (auto simp: batch_ok_def)
  show ?thesis
  proof (cases hf)
    case False
    from queue_ok_finish [OF ok br] obtain s1 where
      "onCommandBatchFinishedLocked E s = Some s1" "queue_ok E serials s1" "others s s1"
      "mInFlightCommands s1 = rest" by blast
    with False hf br show ?thesis
      by (simp add: finishOneCommandBatchLocked_def FixedQueue_front_def)
  next
    case True
    with hf obtain h where h: "CommandBatch_getFenceHandle b = Some h"
      by (auto simp: CommandBatch_getFenceHandle_def hasFence_def split: option.splits if_splits)
    let ?s0 = "emit (CallWaitForFence h t) s"
    let ?st = "vkWaitForFences E (events s) h t"
    have w: "CommandBatch_waitFence E b t s = Some (?st, ?s0)"
      using h by (simp add: CommandBatch_waitFence_def)
    from dev have "?st \<noteq> VK_ERROR_DEVICE_LOST" by (simp add: device_not_lost_def)
    from ANGLE_VK_TRY_total [OF this, of ctx "''finishOneCommandBatchLocked''" 1728 ?s0]
    obtain res s2 where
      t: "ANGLE_VK_TRY ctx ''finishOneCommandBatchLocked'' 1728 ?st ?s0 = Some (res, s2)"
      and f2: "frame ?s0 s2" by blast
    from frame_emit f2 have f: "frame s s2" by (rule frame_trans)
    then have ok2: "queue_ok E serials s2" using ok by (rule queue_ok_frame)
    from f br have br2: "mInFlightCommands s2 = b # rest" by (simp add: frame_def ringsKept_def)
    show ?thesis
    proof (cases res)
      case Stop
      with t w hf True br ok2 f show ?thesis
        by (simp add: finishOneCommandBatchLocked_def FixedQueue_front_def others_frame)
    next
      case Continue
      from queue_ok_finish [OF ok2 br2] obtain s1 where
        "onCommandBatchFinishedLocked E s2 = Some s1" "queue_ok E serials s1" "others s2 s1"
        "mInFlightCommands s1 = rest" by blast
      with Continue t w hf True br others_trans [OF others_frame [OF f]] show ?thesis
        by (simp add: finishOneCommandBatchLocked_def FixedQueue_front_def)
    qed
  qed
qed

lemma batch_ok_released:
  "batch_ok b \<Longrightarrow> valid p \<longrightarrow> mCommandPoolAccess b \<Longrightarrow>
   batch_ok (b\<lparr>mPrimaryCommands := p, mSecondaryCommands := [], mFence := None,
               mExternalFence := None\<rparr>)"
  by (simp add: batch_ok_def hasFence_def)

lemma release_total:
  assumes dev: "device_not_lost E" and bok: "batch_ok b"
  shows "\<exists>r b1 s1. CommandBatch_release E ctx b s = Some (r, b1, s1) \<and> frame s s1 \<and>
           mQueueSerial b1 = mQueueSerial b \<and> batch_ok b1"
proof (cases "valid (mPrimaryCommands b)")
  case False
  then have "CommandBatch_release E ctx b s =
      Some (Continue, b\<lparr>mPrimaryCommands := mPrimaryCommands b, mSecondaryCommands := [],
        mFence := None, mExternalFence := None\<rparr>,
        SharedFence_reset (mFence b) (releaseCommandBuffers (mSecondaryCommands b) s))"
    by (simp add: CommandBatch_release_def Let_def)
  moreover from this have "frame s
      (SharedFence_reset (mFence b) (releaseCommandBuffers (mSecondaryCommands b) s))"
    by (rule frame_CommandBatch_release)
  moreover have "batch_ok (b\<lparr>mPrimaryCommands := mPrimaryCommands b, mSecondaryCommands := [],
        mFence := None, mExternalFence := None\<rparr>)"
    using bok False by (intro batch_ok_released) simp_all
  ultimately show ?thesis by simp
next
  case True
  with bok have acc: "mCommandPoolAccess b" by (simp add: batch_ok_def)
  let ?p = "mPrimaryCommands b"
  let ?s0 = "lock CmdPoolMutex s"
  let ?s1 = "emit (CallCollectPrimary (mProtectionType b) ?p) ?s0"
  from dev have "poolCollect E (events ?s0) ?p \<noteq> VK_ERROR_DEVICE_LOST"
    by (simp add: device_not_lost_def)
  from ANGLE_VK_TRY_total [OF this, of ctx "''collect''" 0 ?s1]
  obtain res s2 where
    t: "ANGLE_VK_TRY ctx ''collect'' 0 (poolCollect E (events ?s0) ?p) ?s1 = Some (res, s2)"
    by blast
  have "\<exists>r b1 s1. CommandBatch_release E ctx b s = Some (r, b1, s1) \<and>
      mQueueSerial b1 = mQueueSerial b \<and> batch_ok b1"
    using True acc t bok batch_ok_released [OF bok, of VK_NULL_HANDLE]
    by (cases res)
       (simp_all add: CommandBatch_release_def CommandPoolAccess_collectPrimaryCommandBuffer_def
          PersistentCommandPool_collect_def Let_def valid_def)
  then show ?thesis using frame_CommandBatch_release by blast
qed


lemma queue_ok_release:
  assumes "queue_ok E serials s" and "mFinishedCommandBatches s = b # rest"
    and "frame s s0" and "mQueueSerial b1 = mQueueSerial b" and "batch_ok b1"
  shows "queue_ok E serials (s0\<lparr>mFinishedCommandBatches := b1 # rest\<rparr>)"
    and "queue_ok E serials
           (s0\<lparr>mFinishedCommandBatches := rest, mNumAllCommands := mNumAllCommands s0 - 1\<rparr>)"
  using assms
  by (auto simp: queue_ok_def frame_def ringsKept_def serialCompleted_def)

lemma release_body_ok:
  assumes dev: "device_not_lost E" and ok: "queue_ok E serials s"
    and fin: "mFinishedCommandBatches s \<noteq> []"
  shows "\<exists>r s1. releaseFinishedCommandsLocked_body E ctx s = Some (r, s1) \<and>
           queue_ok E serials s1 \<and> others s s1 \<and>
           (r = Continue \<longrightarrow>
              length (mFinishedCommandBatches s1) < length (mFinishedCommandBatches s))"
proof -
  from fin obtain b rest where br: "mFinishedCommandBatches s = b # rest"
    by (cases "mFinishedCommandBatches s") auto
  from ok br have bok: "batch_ok b" and cmpl: "serialCompleted (mQueueSerial b) s"
    and num: "0 < mNumAllCommands s"
    by (simp_all add: queue_ok_def)
  from bok have q: "CommandBatch_getQueueSerial b = Some (mQueueSerial b)"
    by (simp add: CommandBatch_getQueueSerial_def batch_ok_def)
  from release_total [OF dev bok, of ctx s] obtain r b1 s0 where
    rel: "CommandBatch_release E ctx b s = Some (r, b1, s0)" and f: "frame s s0"
    and q1: "mQueueSerial b1 = mQueueSerial b" and ok1: "batch_ok b1"
    by blast
  note oks = queue_ok_release [OF ok br f q1 ok1]
  from f br have fin0: "mFinishedCommandBatches s0 = b # rest"
    and num0: "0 < mNumAllCommands s0"
    using num by (simp_all add: frame_def ringsKept_def)
  from f have oth: "others s (s0\<lparr>mFinishedCommandBatches := b1 # rest\<rparr>)"
    "others s (s0\<lparr>mFinishedCommandBatches := rest,
       mNumAllCommands := mNumAllCommands s0 - 1\<rparr>)"
    by (simp_all add: frame_def others_def)
  show ?thesis
  proof (cases r)
    case Stop
    with rel br q cmpl fin0 oks(1) oth(1) show ?thesis
      by (simp add: releaseFinishedCommandsLocked_body_def Let_def)
  next
    case Continue
    with rel br q cmpl fin0 num0 oks(2) oth(2) show ?thesis
      by (simp add: releaseFinishedCommandsLocked_body_def Let_def popFinishedBatchLocked_def
          FixedQueue_pop_def)
  qed
qed

lemma release_loop_ok:
  assumes dev: "device_not_lost E"
  shows "queue_ok E serials s \<Longrightarrow>
         \<exists>r s1. releaseFinishedCommandsLocked E ctx s = Some (r, s1) \<and>
           queue_ok E serials s1 \<and> others s s1 \<and>
           (r = Continue \<longrightarrow> mFinishedCommandBatches s1 = [])"
proof (induction "length (mFinishedCommandBatches s)" arbitrary: s rule: less_induct)
  case less
  show ?case
  proof (cases "mFinishedCommandBatches s = []")
    case True
    with less.prems show ?thesis
      by (simp add: releaseFinishedCommandsLocked.simps [of E ctx s] others_refl)
  next
    case False
    from release_body_ok [OF dev less.prems False, of ctx] obtain r0 s0 where
      body: "releaseFinishedCommandsLocked_body E ctx s = Some (r0, s0)"
      and ok0: "queue_ok E serials s0" and oth0: "others s s0"
      and len: "r0 = Continue \<longrightarrow>
          length (mFinishedCommandBatches s0) < length (mFinishedCommandBatches s)"
      by blast
    show ?thesis
    proof (cases r0)
      case Stop
      with body False ok0 oth0 show ?thesis
        by (simp add: releaseFinishedCommandsLocked.simps [of E ctx s])
    next
      case Continue
      with len have "length (mFinishedCommandBatches s0) < length (mFinishedCommandBatches s)"
        by simp
      from less.hyps [OF this ok0] obtain r s1 where
        "releaseFinishedCommandsLocked E ctx s0 = Some (r, s1)" "queue_ok E serials s1"
        "others s0 s1" "r = Continue \<longrightarrow> mFinishedCommandBatches s1 = []"
        by blast
      with body False Continue others_trans [OF oth0] show ?thesis
        by (simp add: releaseFinishedCommandsLocked.simps [of E ctx s])
    qed
  qed
qed

lemma queue_ok_lock: "queue_ok E serials (lock m s) = queue_ok E serials s"
  by (simp add: queue_ok_def lock_def emit_def serialCompleted_def)

lemma queue_ok_unlock: "queue_ok E serials (unlock m s) = queue_ok E serials s"
  by (simp add: queue_ok_def unlock_def emit_def serialCompleted_def)

lemma others_lock: "others s (lock m s)" by (simp add: others_def lock_def emit_def)
lemma others_unlock: "others s (unlock m s)" by (simp add: others_def unlock_def emit_def)

lemma throttle_ok:
  assumes dev: "device_not_lost E" and ok: "queue_ok E serials s"
  shows "\<exists>r s1. queueSubmitLocked_throttle E ctx s = Some (r, s1) \<and> queue_ok E serials s1 \<and>
           others s s1 \<and>
           (r = Continue \<longrightarrow>
              length (mInFlightCommands s1) < kInFlightCommandsLimit E \<and>
              mNumAllCommands s1 < kMaxFinishedCommandsLimit E)"
proof -
  have A: "\<exists>rA sA. queueSubmitLocked_makeRoom E ctx s = Some (rA, sA) \<and> queue_ok E serials sA \<and>
      others s sA \<and> (rA = Continue \<longrightarrow> length (mInFlightCommands sA) < kInFlightCommandsLimit E)"
  proof (cases "FixedQueue_full (kInFlightCommandsLimit E) (mInFlightCommands s)")
    case False
    with ok show ?thesis
      by (simp add: queueSubmitLocked_makeRoom_def others_refl FixedQueue_full_def queue_ok_def)
  next
    case True
    let ?s0 = "lock CmdCompleteMutex s"
    from True ok have ne: "mInFlightCommands ?s0 \<noteq> []"
      and full: "FixedQueue_full (kInFlightCommandsLimit E) (mInFlightCommands ?s0)"
      by (auto simp: FixedQueue_full_def queue_ok_def lock_def emit_def)
    from ok have ok0: "queue_ok E serials ?s0" by (simp add: queue_ok_lock)
    from finishOne_ok [OF dev ok0 ne, of ctx "getMaxFenceWaitTimeNs E"] obtain r s1 where
      fo: "finishOneCommandBatchLocked E ctx (getMaxFenceWaitTimeNs E) ?s0 = Some (r, s1)"
      and ok1: "queue_ok E serials s1" and oth: "others ?s0 s1"
      and len: "r = Continue \<longrightarrow> length (mInFlightCommands s1) < length (mInFlightCommands ?s0)"
      by blast
    from others_lock oth have "others s s1" by (rule others_trans)
    then have "others s (unlock CmdCompleteMutex s1)"
      using others_unlock by (rule others_trans)
    moreover from len full have "r = Continue \<longrightarrow>
        length (mInFlightCommands (unlock CmdCompleteMutex s1)) < kInFlightCommandsLimit E"
      by (simp add: FixedQueue_full_def unlock_def emit_def)
    ultimately show ?thesis
      using True full fo ok1
      by (simp add: queueSubmitLocked_makeRoom_def with_lock_def queue_ok_unlock)
  qed
  then obtain rA sA where mr: "queueSubmitLocked_makeRoom E ctx s = Some (rA, sA)"
    and okA: "queue_ok E serials sA" and othA: "others s sA"
    and lenA: "rA = Continue \<longrightarrow> length (mInFlightCommands sA) < kInFlightCommandsLimit E"
    by blast
  show ?thesis
  proof (cases rA)
    case Stop
    with mr okA othA show ?thesis by (simp add: queueSubmitLocked_throttle_def)
  next
    case Continue
    with lenA have nf: "length (mInFlightCommands sA) < kInFlightCommandsLimit E" by simp
    from okA have le: "mNumAllCommands sA \<le> kMaxFinishedCommandsLimit E"
      by (simp add: queue_ok_def)
    have B: "\<exists>rB sB. queueSubmitLocked_reclaim E ctx sA = Some (rB, sB) \<and>
        queue_ok E serials sB \<and> others sA sB \<and>
        mInFlightCommands sB = mInFlightCommands sA \<and>
        (rB = Continue \<longrightarrow> mNumAllCommands sB < kMaxFinishedCommandsLimit E)"
    proof (cases "mNumAllCommands sA = kMaxFinishedCommandsLimit E")
      case False
      with le okA show ?thesis
        by (simp add: queueSubmitLocked_reclaim_def others_refl)
    next
      case True
      let ?s0 = "lock CmdReleaseMutex sA"
      from okA have ok0: "queue_ok E serials ?s0" by (simp add: queue_ok_lock)
      from release_loop_ok [OF dev ok0, of ctx] obtain r s1 where
        rl: "releaseFinishedCommandsLocked E ctx ?s0 = Some (r, s1)"
        and ok1: "queue_ok E serials s1" and oth: "others ?s0 s1"
        and emp: "r = Continue \<longrightarrow> mFinishedCommandBatches s1 = []"
        by blast
      from release_loop_post [OF rl] have inf: "mInFlightCommands s1 = mInFlightCommands sA"
        by (simp add: lock_def emit_def)
      from others_lock oth have "others sA s1" by (rule others_trans)
      then have "others sA (unlock CmdReleaseMutex s1)"
        using others_unlock by (rule others_trans)
      moreover from emp ok1 inf nf okA have "r = Continue \<longrightarrow>
          mNumAllCommands (unlock CmdReleaseMutex s1) < kMaxFinishedCommandsLimit E"
        by (auto simp: queue_ok_def unlock_def emit_def)
      moreover from inf have
        "mInFlightCommands (unlock CmdReleaseMutex s1) = mInFlightCommands sA"
        by (simp add: unlock_def emit_def)
      ultimately show ?thesis
        using True rl ok1
        by (simp add: queueSubmitLocked_reclaim_def with_lock_def queue_ok_unlock)
    qed
    then obtain rB sB where rc: "queueSubmitLocked_reclaim E ctx sA = Some (rB, sB)"
      and okB: "queue_ok E serials sB" and othB: "others sA sB"
      and infB: "mInFlightCommands sB = mInFlightCommands sA"
      and numB: "rB = Continue \<longrightarrow> mNumAllCommands sB < kMaxFinishedCommandsLimit E"
      by blast
    from othA othB have "others s sB" by (rule others_trans)
    with mr Continue nf le rc okB infB numB show ?thesis
      by (cases rB) (simp_all add: queueSubmitLocked_throttle_def FixedQueue_full_def)
  qed
qed


lemma submit_total:
  assumes dev: "device_not_lost E"
    and fh: "sTypeIsSubmitInfo si \<longrightarrow>
               (\<exists>f. CommandBatch_getFenceHandle b = Some f \<and> f \<noteq> VK_NULL_HANDLE)"
  shows "\<exists>r s1. queueSubmitLocked_submit E ctx priority si b s = Some (r, s1) \<and> frame s s1"
proof -
  have "\<exists>r s1. queueSubmitLocked_submit E ctx priority si b s = Some (r, s1)"
  proof (cases "sTypeIsSubmitInfo si")
    case False
    then show ?thesis by (simp add: queueSubmitLocked_submit_def)
  next
    case True
    with fh obtain f where f: "CommandBatch_getFenceHandle b = Some f" "f \<noteq> VK_NULL_HANDLE"
      by blast
    from dev have "vkQueueSubmit E (events s) si f \<noteq> VK_ERROR_DEVICE_LOST"
      by (simp add: device_not_lost_def)
    from ANGLE_VK_TRY_total [OF this, of ctx "''queueSubmitLocked''" 1602
        "emit (CallQueueSubmit priority si f) s"]
    obtain res s2 where "ANGLE_VK_TRY ctx ''queueSubmitLocked'' 1602
        (vkQueueSubmit E (events s) si f) (emit (CallQueueSubmit priority si f) s) =
        Some (res, s2)" by blast
    with True f show ?thesis
      by (cases res) (simp_all add: queueSubmitLocked_submit_def)
  qed
  then show ?thesis using frame_queueSubmitLocked_submit by blast
qed

lemma queue_ok_push:
  assumes ok: "queue_ok E (mQueueSerial b # serials) s" and bok: "batch_ok b"
    and room: "length (mInFlightCommands s) < kInFlightCommandsLimit E"
    and num: "mNumAllCommands s < kMaxFinishedCommandsLimit E"
  shows "\<exists>s1. pushInFlightBatchLocked E b s = Some s1 \<and>
           queue_ok E serials (setLastSubmitted q s1) \<and> others s (setLastSubmitted q s1)"
proof -
  let ?s1 = "emit (PushInFlight (mQueueSerial b))
      (s\<lparr>mNumAllCommands := mNumAllCommands s + 1,
         mInFlightCommands := mInFlightCommands s @ [b]\<rparr>)"
  from room have "pushInFlightBatchLocked E b s = Some ?s1"
    by (simp add: pushInFlightBatchLocked_def FixedQueue_push_def Let_def)
  moreover from ok bok room num have "queue_ok E serials (setLastSubmitted q ?s1)"
    by (simp add: queue_ok_def setLastSubmitted_def emit_def serialCompleted_def)
  moreover have "others s (setLastSubmitted q ?s1)"
    by (simp add: others_def setLastSubmitted_def emit_def)
  ultimately show ?thesis by blast
qed

lemma queueSubmitLocked_ok:
  assumes dev: "device_not_lost E" and ok: "queue_ok E (mQueueSerial b # serials) s"
    and bok: "batch_ok b"
    and fh: "sTypeIsSubmitInfo si \<longrightarrow>
               (\<exists>f. CommandBatch_getFenceHandle b = Some f \<and> f \<noteq> VK_NULL_HANDLE)"
  shows "\<exists>r b1 s1. queueSubmitLocked E ctx priority si b q s = Some (r, b1, s1) \<and>
           others s s1 \<and> (r = Stop \<longrightarrow> b1 = b) \<and>
           (r = Continue \<longrightarrow> b1 = CommandBatch_new \<and> queue_ok E serials s1)"
proof -
  from throttle_ok [OF dev ok, of ctx] obtain rT sT where
    th: "queueSubmitLocked_throttle E ctx s = Some (rT, sT)"
    and okT: "queue_ok E (mQueueSerial b # serials) sT" and othT: "others s sT"
    and room: "rT = Continue \<longrightarrow>
          length (mInFlightCommands sT) < kInFlightCommandsLimit E \<and>
          mNumAllCommands sT < kMaxFinishedCommandsLimit E"
    by blast
  show ?thesis
  proof (cases rT)
    case Stop
    with th othT show ?thesis by (simp add: queueSubmitLocked_def)
  next
    case Continue
    from submit_total [OF dev fh, of ctx priority sT] obtain rS sS where
      su: "queueSubmitLocked_submit E ctx priority si b sT = Some (rS, sS)"
      and fS: "frame sT sS" by blast
    from othT others_frame [OF fS] have othS: "others s sS" by (rule others_trans)
    show ?thesis
    proof (cases rS)
      case Stop
      with th Continue su othS show ?thesis by (simp add: queueSubmitLocked_def)
    next
      case rSc: Continue
      from fS okT have okS: "queue_ok E (mQueueSerial b # serials) sS" by (rule queue_ok_frame)
      from fS room Continue have roomS: "length (mInFlightCommands sS) < kInFlightCommandsLimit E"
        "mNumAllCommands sS < kMaxFinishedCommandsLimit E"
        by (simp_all add: frame_def ringsKept_def)
      from queue_ok_push [OF okS bok roomS, of q] obtain sP where
        "pushInFlightBatchLocked E b sS = Some sP"
        "queue_ok E serials (setLastSubmitted q sP)" "others sS (setLastSubmitted q sP)"
        by blast
      with th Continue su rSc others_trans [OF othS] show ?thesis
        by (simp add: queueSubmitLocked_def)
    qed
  qed
qed

lemma destroy_total:
  assumes "valid (mPrimaryCommands b) \<longrightarrow> mCommandPoolAccess b"
  shows "\<exists>b1 s1. CommandBatch_destroy b s = Some (b1, s1) \<and> frame s s1"
proof -
  from assms have "\<exists>b1 s1. CommandBatch_destroy b s = Some (b1, s1)"
    by (simp add: CommandBatch_destroy_def CommandPoolAccess_destroyPrimaryCommandBuffer_def
        Let_def)
  then show ?thesis using frame_CommandBatch_destroy by blast
qed

lemma DeviceScoped_exit_total:
  assumes "valid (mPrimaryCommands b) \<longrightarrow> mCommandPoolAccess b"
  shows "\<exists>s1. DeviceScoped_exit (Some (r, b, s)) = Some (r, s1) \<and> frame s s1"
  using destroy_total [OF assms, of s] by (auto simp: DeviceScoped_exit_def)

lemma initFence_total:
  assumes dev: "device_not_lost E" and hf: "hasFence b = Some False"
  shows "\<exists>r b4 s1. CommandBatch_initFence E b s = Some (r, b4, s1) \<and> frame s s1 \<and>
           r \<noteq> VK_ERROR_DEVICE_LOST \<and>
           (r = VK_SUCCESS \<longrightarrow> (\<exists>rf. b4 = b\<lparr>mFence := Some rf\<rparr> \<and> valid (rfFence rf))) \<and>
           (r \<noteq> VK_SUCCESS \<longrightarrow> b4 = b)"
proof -
  obtain f s1 where fe: "FenceRecycler_fetch VK_NULL_HANDLE s = Some (f, s1)"
    by (cases "mFenceRecycler s = []")
       (simp_all add: FenceRecycler_fetch_def Recycler_fetch_def Recycler_empty_def valid_def
          lock_def emit_def Let_def)
  have "\<exists>r b4 s2. CommandBatch_initFence E b s = Some (r, b4, s2) \<and>
           r \<noteq> VK_ERROR_DEVICE_LOST \<and>
           (r = VK_SUCCESS \<longrightarrow> (\<exists>rf. b4 = b\<lparr>mFence := Some rf\<rparr> \<and> valid (rfFence rf))) \<and>
           (r \<noteq> VK_SUCCESS \<longrightarrow> b4 = b)"
  proof (cases "valid f")
    case True
    with fe hf show ?thesis
      by (simp add: CommandBatch_initFence_def RecyclableFence_init_def RecyclableFence_new_def
          valid_def)
         (rule exI [of _ "\<lparr>rfFence = f, rfRecycler = True\<rparr>"], simp)
  next
    case False
    obtain result h where cf: "vkCreateFence E (events s1) = (result, h)"
      by (cases "vkCreateFence E (events s1)")
    with dev have "result \<noteq> VK_ERROR_DEVICE_LOST" "result = VK_SUCCESS \<longrightarrow> valid h"
      by (auto simp: device_not_lost_def dest: spec [of _ "events s1"])
    with fe hf False cf show ?thesis
      by (cases "result = VK_SUCCESS")
         (auto simp: CommandBatch_initFence_def RecyclableFence_init_def RecyclableFence_new_def
          valid_def Let_def intro: exI [of _ "\<lparr>rfFence = h, rfRecycler = True\<rparr>"])
  qed
  then show ?thesis using initFence_post by blast
qed

lemma getCommands_total:
  assumes dev: "device_not_lost E" and cs: "commands_ok s"
    and fresh: "\<not> valid (mPrimaryCommands b)" "\<not> mCommandPoolAccess b"
      "mSecondaryCommands b = []"
  shows "\<exists>r b3 ws ms s1.
           CommandPoolAccess_getCommandsAndWaitSemaphores E ctx pt priority b s =
             Some (r, b3, ws, ms, s1) \<and>
           ringsKept s s1 \<and> swapchainStatus s1 = swapchainStatus s \<and> commands_ok s1 \<and>
           (r = Stop \<longrightarrow> b3 = b) \<and>
           (r = Continue \<longrightarrow>
              (\<exists>p sec. b3 = b\<lparr>mPrimaryCommands := p, mCommandPoolAccess := True,
                                mSecondaryCommands := sec\<rparr>) \<and>
              length ws = length ms)"
proof -
  let ?s0 = "lock CmdPoolMutex s"
  let ?st = "mCommandsStateMap ?s0 priority pt"
  from cs have st: "commandsState_ok ?st"
    by (simp add: commands_ok_def lock_def emit_def)
  have "\<exists>r0 s2. (if valid (primaryCommands ?st) then
            ANGLE_VK_TRY ctx ''getCommandsAndWaitSemaphores'' 1196
              (vkEndCommandBuffer E (events ?s0) (primaryCommands ?st))
              (emit (CallEndCommandBuffer (primaryCommands ?st)) ?s0)
          else Some (Continue, ?s0)) = Some (r0, s2) \<and> frame ?s0 s2"
  proof (cases "valid (primaryCommands ?st)")
    case False
    then show ?thesis by (simp add: frame_refl)
  next
    case True
    from dev have "vkEndCommandBuffer E (events ?s0) (primaryCommands ?st) \<noteq>
        VK_ERROR_DEVICE_LOST" by (simp add: device_not_lost_def)
    from ANGLE_VK_TRY_total [OF this, of ctx "''getCommandsAndWaitSemaphores''" 1196
        "emit (CallEndCommandBuffer (primaryCommands ?st)) ?s0"]
    obtain res s2 where
      "ANGLE_VK_TRY ctx ''getCommandsAndWaitSemaphores'' 1196
        (vkEndCommandBuffer E (events ?s0) (primaryCommands ?st))
        (emit (CallEndCommandBuffer (primaryCommands ?st)) ?s0) = Some (res, s2)"
      "frame (emit (CallEndCommandBuffer (primaryCommands ?st)) ?s0) s2"
      by blast
    with True frame_trans [OF frame_emit] show ?thesis by auto
  qed
  then obtain r0 s2 where
    tr: "(if valid (primaryCommands ?st) then
            ANGLE_VK_TRY ctx ''getCommandsAndWaitSemaphores'' 1196
              (vkEndCommandBuffer E (events ?s0) (primaryCommands ?st))
              (emit (CallEndCommandBuffer (primaryCommands ?st)) ?s0)
          else Some (Continue, ?s0)) = Some (r0, s2)"
    and f2: "frame ?s0 s2" by blast
  from frame_lock f2 have f: "frame s s2" by (rule frame_trans)
  with cs have cs2: "commands_ok s2" by (simp add: commands_ok_def frame_def)
  show ?thesis
  proof (cases r0)
    case Stop
    with tr st f cs2 show ?thesis
      by (simp add: CommandPoolAccess_getCommandsAndWaitSemaphores_def Let_def
          commandsState_ok_def frame_def ringsKept_def unlock_def emit_def commands_ok_def)
  next
    case Continue
    let ?s3 = "unlock CmdPoolMutex
        (s2\<lparr>mCommandsStateMap :=
              (mCommandsStateMap s2)(priority := (mCommandsStateMap s2 priority)
                 (pt := CommandsState_empty))\<rparr>)"
    from st fresh have run: "CommandPoolAccess_getCommandsAndWaitSemaphores E ctx pt priority b s =
        Some (Continue, b\<lparr>mPrimaryCommands := primaryCommands ?st, mCommandPoolAccess := True,
                mSecondaryCommands := secondaryCommands ?st\<rparr>,
              waitSemaphores ?st, waitSemaphoreStageMasks ?st, ?s3)"
      using tr Continue
      by (simp add: CommandPoolAccess_getCommandsAndWaitSemaphores_def Let_def
          commandsState_ok_def CommandBatch_setPrimaryCommands_def
          CommandBatch_setSecondaryCommands_def)
    from cs2 have "commands_ok ?s3"
      by (simp add: commands_ok_def unlock_def emit_def commandsState_ok_def
          CommandsState_empty_def)
    moreover from f have "ringsKept s ?s3" "swapchainStatus ?s3 = swapchainStatus s"
      by (simp_all add: frame_def ringsKept_def unlock_def emit_def)
    moreover from st have "length (waitSemaphores ?st) = length (waitSemaphoreStageMasks ?st)"
      by (simp add: commandsState_ok_def)
    ultimately show ?thesis using run by blast
  qed
qed


lemma commands_ok_others: "others s s1 \<Longrightarrow> commands_ok s \<Longrightarrow> commands_ok s1"
  by (simp add: others_def commands_ok_def)

lemma submitCommands_scope_ok:
  assumes dev: "device_not_lost E" and ok: "queue_ok E (q # serials) s"
    and cs: "commands_ok s" and qv: "QueueSerial_valid q" and ptv: "pt \<noteq> InvalidEnum"
    and ev: "ext \<noteq> Some VK_NULL_HANDLE"
  shows "\<exists>r b s1. submitCommands_scope E ctx pt priority sem ext q s = Some (r, b, s1) \<and>
           (valid (mPrimaryCommands b) \<longrightarrow> mCommandPoolAccess b) \<and>
           swapchainStatus s1 = swapchainStatus s \<and> commands_ok s1 \<and>
           (r = Continue \<longrightarrow> queue_ok E serials s1)"
proof -
  let ?b1 = "CommandBatch_new\<lparr>mQueueSerial := q\<rparr>"
  let ?b2 = "?b1\<lparr>mProtectionType := pt\<rparr>"
  from qv have b1: "CommandBatch_setQueueSerial q CommandBatch_new = Some ?b1"
    by (simp add: CommandBatch_setQueueSerial_def CommandBatch_new_def QueueSerial_valid_def
        QueueSerial_default_def)
  from ptv have b2: "CommandBatch_setProtectionType pt ?b1 = Some ?b2"
    by (simp add: CommandBatch_setProtectionType_def CommandBatch_new_def)
  have fresh: "\<not> valid (mPrimaryCommands ?b2)" "\<not> mCommandPoolAccess ?b2"
    "mSecondaryCommands ?b2 = []"
    by (simp_all add: CommandBatch_new_def valid_def)
  from getCommands_total [OF dev cs fresh, of ctx pt priority] obtain rG b3 ws ms sG where
    g: "CommandPoolAccess_getCommandsAndWaitSemaphores E ctx pt priority ?b2 s =
          Some (rG, b3, ws, ms, sG)"
    and rkG: "ringsKept s sG" and swG: "swapchainStatus sG = swapchainStatus s"
    and csG: "commands_ok sG" and stopG: "rG = Stop \<longrightarrow> b3 = ?b2"
    and contG: "rG = Continue \<longrightarrow>
          (\<exists>p sec. b3 = ?b2\<lparr>mPrimaryCommands := p, mCommandPoolAccess := True,
                              mSecondaryCommands := sec\<rparr>) \<and> length ws = length ms"
    by blast
  from rkG ok have okG: "queue_ok E (q # serials) sG" by (rule queue_ok_ringsKept)
  show ?thesis
  proof (cases rG)
    case Stop
    with stopG fresh have "valid (mPrimaryCommands b3) \<longrightarrow> mCommandPoolAccess b3" by simp
    with b1 b2 g Stop swG csG show ?thesis
      by (simp add: submitCommands_scope_def)
  next
    case Continue
    with contG obtain p sec where
      b3: "b3 = ?b2\<lparr>mPrimaryCommands := p, mCommandPoolAccess := True,
                     mSecondaryCommands := sec\<rparr>"
      and len: "length ws = length ms" by blast
    from b3 have q3: "mQueueSerial b3 = q" and acc3: "mCommandPoolAccess b3"
      and hf3: "hasFence b3 = Some False"
      by (simp_all add: CommandBatch_new_def hasFence_def)
    from b3 qv have bok3: "batch_ok b3"
      by (simp add: batch_ok_def hasFence_def CommandBatch_new_def)
    have fin: "\<exists>r b s1. queueSubmitLocked E ctx priority si b4 q s3 = Some (r, b, s1) \<and>
           (valid (mPrimaryCommands b) \<longrightarrow> mCommandPoolAccess b) \<and>
           swapchainStatus s1 = swapchainStatus s \<and> commands_ok s1 \<and>
           (r = Continue \<longrightarrow> queue_ok E serials s1)"
      if "batch_ok b4" and "mQueueSerial b4 = q" and "mCommandPoolAccess b4"
        and "queue_ok E (q # serials) s3" and "others sG s3"
        and "sTypeIsSubmitInfo si \<longrightarrow>
               (\<exists>f. CommandBatch_getFenceHandle b4 = Some f \<and> f \<noteq> VK_NULL_HANDLE)"
      for si b4 s3
    proof -
      from that have ok4: "queue_ok E (mQueueSerial b4 # serials) s3" by simp
      from queueSubmitLocked_ok [OF dev ok4 that(1) that(6), of ctx priority q]
      obtain r b s1 where
        run: "queueSubmitLocked E ctx priority si b4 q s3 = Some (r, b, s1)"
        and oth: "others s3 s1" and st: "r = Stop \<longrightarrow> b = b4"
        and co: "r = Continue \<longrightarrow> b = CommandBatch_new \<and> queue_ok E serials s1"
        by blast
      from that(5) oth have o: "others sG s1" by (rule others_trans)
      with swG have "swapchainStatus s1 = swapchainStatus s" by (simp add: others_def)
      moreover from o csG have "commands_ok s1" by (rule commands_ok_others)
      moreover from st co that(3) have "valid (mPrimaryCommands b) \<longrightarrow> mCommandPoolAccess b"
        by (cases r) (simp_all add: CommandBatch_new_def valid_def)
      ultimately show ?thesis using run co by blast
    qed
    show ?thesis
    proof (cases "needsQueueSubmit b3 sem ext ws")
      case False
      from fin [of b3 sG VkSubmitInfo_zero] bok3 q3 acc3 okG
      obtain r b s1 where
        "queueSubmitLocked E ctx priority VkSubmitInfo_zero b3 q sG = Some (r, b, s1)"
        "valid (mPrimaryCommands b) \<longrightarrow> mCommandPoolAccess b"
        "swapchainStatus s1 = swapchainStatus s" "commands_ok s1"
        "r = Continue \<longrightarrow> queue_ok E serials s1"
        by (auto simp: others_refl VkSubmitInfo_zero_def)
      with b1 b2 g Continue False show ?thesis
        by (simp add: submitCommands_scope_def)
    next
      case True
      from len obtain si where
        si: "InitializeSubmitInfo VkSubmitInfo_zero (mPrimaryCommands b3) ws ms sem = Some si"
        by (simp add: InitializeSubmitInfo_def VkSubmitInfo_zero_def)
      let ?si1 = "if pt = Protected \<and> valid (mPrimaryCommands b3)
                  then si\<lparr>protectedSubmit := True\<rparr> else si"
      have pre: "\<exists>res b4 s3.
          (if ext = None then
             (case CommandBatch_initFence E b3 sG of
                None \<Rightarrow> None
              | Some (r, b4, s2) \<Rightarrow>
                  map_option (\<lambda>(res, s3). (res, b4, s3))
                    (ANGLE_VK_TRY ctx ''submitCommands'' 1497 r s2))
           else map_option (\<lambda>b4. (Continue, b4, sG))
                  (CommandBatch_setExternalFence ext b3)) = Some (res, b4, s3) \<and>
          frame sG s3 \<and> mCommandPoolAccess b4 \<and>
          (res = Continue \<longrightarrow> batch_ok b4 \<and> mQueueSerial b4 = q \<and>
             (\<exists>f. CommandBatch_getFenceHandle b4 = Some f \<and> f \<noteq> VK_NULL_HANDLE))"
      proof (cases ext)
        case (Some h)
        with ev have h: "h \<noteq> VK_NULL_HANDLE" by auto
        let ?b4 = "b3\<lparr>mExternalFence := Some h\<rparr>"
        from hf3 Some have "CommandBatch_setExternalFence ext b3 = Some ?b4"
          by (simp add: CommandBatch_setExternalFence_def)
        moreover from b3 qv have "batch_ok ?b4"
          by (simp add: batch_ok_def hasFence_def CommandBatch_new_def)
        moreover from b3 h have "CommandBatch_getFenceHandle ?b4 = Some h"
          by (simp add: CommandBatch_getFenceHandle_def hasFence_def CommandBatch_new_def)
        ultimately show ?thesis using Some h q3 acc3 by (simp add: frame_refl)
      next
        case None
        from initFence_total [OF dev hf3, of sG] obtain r b4 s2 where
          inf: "CommandBatch_initFence E b3 sG = Some (r, b4, s2)" and f2: "frame sG s2"
          and nl: "r \<noteq> VK_ERROR_DEVICE_LOST"
          and su: "r = VK_SUCCESS \<longrightarrow> (\<exists>rf. b4 = b3\<lparr>mFence := Some rf\<rparr> \<and> valid (rfFence rf))"
          and fa: "r \<noteq> VK_SUCCESS \<longrightarrow> b4 = b3"
          by blast
        from ANGLE_VK_TRY_total [OF nl, of ctx "''submitCommands''" 1497 s2]
        obtain res s3 where
          t: "ANGLE_VK_TRY ctx ''submitCommands'' 1497 r s2 = Some (res, s3)"
          and f3: "frame s2 s3" and rc: "res = Continue \<longleftrightarrow> r = VK_SUCCESS"
          by blast
        from f2 f3 have f: "frame sG s3" by (rule frame_trans)
        from su fa acc3 have acc4: "mCommandPoolAccess b4"
          by (cases "r = VK_SUCCESS") auto
        have "res = Continue \<longrightarrow> batch_ok b4 \<and> mQueueSerial b4 = q \<and>
             (\<exists>f. CommandBatch_getFenceHandle b4 = Some f \<and> f \<noteq> VK_NULL_HANDLE)"
        proof
          assume "res = Continue"
          with rc su obtain rf where b4: "b4 = b3\<lparr>mFence := Some rf\<rparr>" and v: "valid (rfFence rf)"
            by blast
          from b4 b3 qv v have "batch_ok b4"
            by (simp add: batch_ok_def hasFence_def CommandBatch_new_def)
          moreover from b4 b3 v have "CommandBatch_getFenceHandle b4 = Some (rfFence rf)"
            by (simp add: CommandBatch_getFenceHandle_def hasFence_def CommandBatch_new_def)
          ultimately show "batch_ok b4 \<and> mQueueSerial b4 = q \<and>
             (\<exists>f. CommandBatch_getFenceHandle b4 = Some f \<and> f \<noteq> VK_NULL_HANDLE)"
            using b4 q3 v by (simp add: valid_def)
        qed
        with None inf t f acc4 show ?thesis by simp
      qed
      then obtain res b4 s3 where
        st: "(if ext = None then
             (case CommandBatch_initFence E b3 sG of
                None \<Rightarrow> None
              | Some (r, b4, s2) \<Rightarrow>
                  map_option (\<lambda>(res, s3). (res, b4, s3))
                    (ANGLE_VK_TRY ctx ''submitCommands'' 1497 r s2))
           else map_option (\<lambda>b4. (Continue, b4, sG))
                  (CommandBatch_setExternalFence ext b3)) = Some (res, b4, s3)"
        and f3: "frame sG s3" and acc4: "mCommandPoolAccess b4"
        and c4: "res = Continue \<longrightarrow> batch_ok b4 \<and> mQueueSerial b4 = q \<and>
             (\<exists>f. CommandBatch_getFenceHandle b4 = Some f \<and> f \<noteq> VK_NULL_HANDLE)"
        by blast
      from f3 swG csG have sw3: "swapchainStatus s3 = swapchainStatus s" and cs3: "commands_ok s3"
        by (simp_all add: frame_def commands_ok_def)
      show ?thesis
      proof (cases res)
        case Stop
        with b1 b2 g Continue True si st acc4 sw3 cs3 show ?thesis
          by (simp add: submitCommands_scope_def Let_def)
      next
        case rc: Continue
        from f3 okG have "queue_ok E (q # serials) s3" by (rule queue_ok_frame)
        with fin [of b4 s3 ?si1] c4 rc acc4 others_frame [OF f3]
        obtain r b s1 where
          "queueSubmitLocked E ctx priority ?si1 b4 q s3 = Some (r, b, s1)"
          "valid (mPrimaryCommands b) \<longrightarrow> mCommandPoolAccess b"
          "swapchainStatus s1 = swapchainStatus s" "commands_ok s1"
          "r = Continue \<longrightarrow> queue_ok E serials s1"
          by auto
        with b1 b2 g Continue True si st rc show ?thesis
          by (simp add: submitCommands_scope_def Let_def)
      qed
    qed
  qed
qed

lemma scoped_call_ok:
  assumes sc: "\<exists>r b s1. scope (lock QueueSubmitMutex s) = Some (r, b, s1) \<and>
           (valid (mPrimaryCommands b) \<longrightarrow> mCommandPoolAccess b) \<and>
           swapchainStatus s1 = swapchainStatus (lock QueueSubmitMutex s) \<and> commands_ok s1 \<and>
           (r = Continue \<longrightarrow> queue_ok E serials s1)"
  shows "\<exists>r s1. with_lock QueueSubmitMutex (\<lambda>s0. DeviceScoped_exit (scope s0)) s = Some (r, s1) \<and>
           swapchainStatus s1 = swapchainStatus s \<and> commands_ok s1 \<and>
           (r = Continue \<longrightarrow> queue_ok E serials s1)"
proof -
  from sc obtain r b s1 where
    run: "scope (lock QueueSubmitMutex s) = Some (r, b, s1)"
    and acc: "valid (mPrimaryCommands b) \<longrightarrow> mCommandPoolAccess b"
    and sw: "swapchainStatus s1 = swapchainStatus (lock QueueSubmitMutex s)"
    and cs: "commands_ok s1" and ok: "r = Continue \<longrightarrow> queue_ok E serials s1"
    by blast
  from DeviceScoped_exit_total [OF acc, of r s1] obtain s2 where
    ex: "DeviceScoped_exit (Some (r, b, s1)) = Some (r, s2)" and f: "frame s1 s2"
    by blast
  from f sw have "swapchainStatus (unlock QueueSubmitMutex s2) = swapchainStatus s"
    by (simp add: frame_def unlock_def lock_def emit_def)
  moreover from f cs have "commands_ok (unlock QueueSubmitMutex s2)"
    by (simp add: frame_def commands_ok_def unlock_def emit_def)
  moreover from f ok have "r = Continue \<longrightarrow> queue_ok E serials (unlock QueueSubmitMutex s2)"
    by (auto simp: queue_ok_unlock intro: queue_ok_frame)
  ultimately show ?thesis using run ex by (simp add: with_lock_def)
qed

lemma commands_ok_lock: "commands_ok (lock m s) = commands_ok s"
  by (simp add: commands_ok_def lock_def emit_def)

lemma submitCommands_ok:
  assumes dev: "device_not_lost E" and ok: "queue_ok E (q # serials) s"
    and cs: "commands_ok s" and qv: "QueueSerial_valid q" and ptv: "pt \<noteq> InvalidEnum"
    and ev: "ext \<noteq> Some VK_NULL_HANDLE"
  shows "\<exists>r s1. CommandQueue_submitCommands E ctx pt priority sem ext q s = Some (r, s1) \<and>
           swapchainStatus s1 = swapchainStatus s \<and> commands_ok s1 \<and>
           (r = Continue \<longrightarrow> queue_ok E serials s1)"
  unfolding CommandQueue_submitCommands_def
  by (rule scoped_call_ok, rule submitCommands_scope_ok [OF dev _ _ qv ptv ev])
     (simp_all add: ok cs queue_ok_lock commands_ok_lock)


lemma queueSubmitOneOff_scope_ok:
  assumes dev: "device_not_lost E" and ok: "queue_ok E (q # serials) s"
    and cs: "commands_ok s" and qv: "QueueSerial_valid q" and ptv: "pt \<noteq> InvalidEnum"
  shows "\<exists>r b s1. queueSubmitOneOff_scope E ctx pt priority cb ws wm q s = Some (r, b, s1) \<and>
           (valid (mPrimaryCommands b) \<longrightarrow> mCommandPoolAccess b) \<and>
           swapchainStatus s1 = swapchainStatus s \<and> commands_ok s1 \<and>
           (r = Continue \<longrightarrow> queue_ok E serials s1)"
proof -
  let ?b1 = "CommandBatch_new\<lparr>mQueueSerial := q\<rparr>"
  let ?b2 = "?b1\<lparr>mProtectionType := pt\<rparr>"
  let ?si = "VkSubmitInfo_zero
               \<lparr>sTypeIsSubmitInfo := True,
                protectedSubmit := (pt = Protected),
                commandBuffers := (if cb \<noteq> VK_NULL_HANDLE then [cb] else []),
                submitWaitSemaphores := (if ws \<noteq> VK_NULL_HANDLE then [ws] else []),
                submitWaitDstStageMask := (if ws \<noteq> VK_NULL_HANDLE then [wm] else [])\<rparr>"
  from qv have b1: "CommandBatch_setQueueSerial q CommandBatch_new = Some ?b1"
    by (simp add: CommandBatch_setQueueSerial_def CommandBatch_new_def QueueSerial_valid_def
        QueueSerial_default_def)
  from ptv have b2: "CommandBatch_setProtectionType pt ?b1 = Some ?b2"
    by (simp add: CommandBatch_setProtectionType_def CommandBatch_new_def)
  from ptv have pt: "pt = Unprotected \<or> pt = Protected" by (cases pt) simp_all
  have hf2: "hasFence ?b2 = Some False" by (simp add: hasFence_def CommandBatch_new_def)
  from initFence_total [OF dev hf2, of s] obtain r b3 s1 where
    inf: "CommandBatch_initFence E ?b2 s = Some (r, b3, s1)" and f1: "frame s s1"
    and nl: "r \<noteq> VK_ERROR_DEVICE_LOST"
    and su: "r = VK_SUCCESS \<longrightarrow> (\<exists>rf. b3 = ?b2\<lparr>mFence := Some rf\<rparr> \<and> valid (rfFence rf))"
    and fa: "r \<noteq> VK_SUCCESS \<longrightarrow> b3 = ?b2"
    by blast
  from ANGLE_VK_TRY_total [OF nl, of ctx "''queueSubmitOneOff''" 1526 s1]
  obtain res s2 where
    t: "ANGLE_VK_TRY ctx ''queueSubmitOneOff'' 1526 r s1 = Some (res, s2)"
    and f2: "frame s1 s2" and rc: "res = Continue \<longleftrightarrow> r = VK_SUCCESS"
    by blast
  from f1 f2 have f: "frame s s2" by (rule frame_trans)
  from f cs have sw2: "swapchainStatus s2 = swapchainStatus s" and cs2: "commands_ok s2"
    by (simp_all add: frame_def commands_ok_def)
  from su fa have np: "\<not> valid (mPrimaryCommands b3)"
    by (cases "r = VK_SUCCESS") (auto simp: CommandBatch_new_def valid_def)
  show ?thesis
  proof (cases res)
    case Stop
    with b1 b2 inf t np sw2 cs2 show ?thesis
      by (simp add: queueSubmitOneOff_scope_def)
  next
    case Continue
    with rc su obtain rf where b3: "b3 = ?b2\<lparr>mFence := Some rf\<rparr>" and v: "valid (rfFence rf)"
      by blast
    from b3 qv v have bok: "batch_ok b3"
      by (simp add: batch_ok_def hasFence_def CommandBatch_new_def valid_def)
    from b3 v have fh: "sTypeIsSubmitInfo ?si \<longrightarrow>
        (\<exists>f. CommandBatch_getFenceHandle b3 = Some f \<and> f \<noteq> VK_NULL_HANDLE)"
      by (simp add: CommandBatch_getFenceHandle_def hasFence_def CommandBatch_new_def valid_def)
    from f ok b3 have ok2: "queue_ok E (mQueueSerial b3 # serials) s2"
      by (auto intro: queue_ok_frame)
    from queueSubmitLocked_ok [OF dev ok2 bok fh, of ctx priority q]
    obtain r1 b s3 where
      run: "queueSubmitLocked E ctx priority ?si b3 q s2 = Some (r1, b, s3)"
      and oth: "others s2 s3" and st: "r1 = Stop \<longrightarrow> b = b3"
      and co: "r1 = Continue \<longrightarrow> b = CommandBatch_new \<and> queue_ok E serials s3"
      by blast
    from oth sw2 have "swapchainStatus s3 = swapchainStatus s" by (simp add: others_def)
    moreover from oth cs2 have "commands_ok s3" by (rule commands_ok_others)
    moreover from st co np have "valid (mPrimaryCommands b) \<longrightarrow> mCommandPoolAccess b"
      by (cases r1) (simp_all add: CommandBatch_new_def valid_def)
    ultimately show ?thesis
      using b1 b2 inf t Continue pt run co
      by (simp add: queueSubmitOneOff_scope_def Let_def)
  qed
qed

lemma queueSubmitOneOff_ok:
  assumes dev: "device_not_lost E" and ok: "queue_ok E (q # serials) s"
    and cs: "commands_ok s" and qv: "QueueSerial_valid q" and ptv: "pt \<noteq> InvalidEnum"
  shows "\<exists>r s1. CommandQueue_queueSubmitOneOff E ctx pt priority cb ws wm q s = Some (r, s1) \<and>
           swapchainStatus s1 = swapchainStatus s \<and> commands_ok s1 \<and>
           (r = Continue \<longrightarrow> queue_ok E serials s1)"
  unfolding CommandQueue_queueSubmitOneOff_def
  by (rule scoped_call_ok, rule queueSubmitOneOff_scope_ok [OF dev _ _ qv ptv])
     (simp_all add: ok cs queue_ok_lock commands_ok_lock)

lemma commands_ok_primary:
  assumes "commands_ok s" and "valid h"
  shows "commands_ok
           (s\<lparr>mCommandsStateMap :=
                (mCommandsStateMap s)
                  (priority := (mCommandsStateMap s priority)
                     (pt := (mCommandsStateMap s priority pt)\<lparr>primaryCommands := h\<rparr>))\<rparr>)"
  using assms by (simp add: commands_ok_def commandsState_ok_def)

lemma ensurePrimary_ok:
  assumes dev: "device_not_lost E" and cs: "commands_ok s"
  shows "\<exists>r s1. ensurePrimaryCommandBufferValidLocked E ctx pt priority s = Some (r, s1) \<and>
           ringsKept s s1 \<and> swapchainStatus s1 = swapchainStatus s \<and> commands_ok s1"
proof (cases "valid (primaryCommands (mCommandsStateMap s priority pt))")
  case True
  with cs show ?thesis
    by (simp add: ensurePrimaryCommandBufferValidLocked_def ringsKept_refl)
next
  case False
  obtain r h where pa: "poolAllocate E (events s) pt = (r, h)"
    by (cases "poolAllocate E (events s) pt")
  from dev have "fst (poolAllocate E (events s) pt) \<noteq> VK_ERROR_DEVICE_LOST \<and>
      (fst (poolAllocate E (events s) pt) = VK_SUCCESS \<longrightarrow>
         valid (snd (poolAllocate E (events s) pt)))"
    by (simp add: device_not_lost_def)
  with pa have nl: "r \<noteq> VK_ERROR_DEVICE_LOST" and v: "r = VK_SUCCESS \<longrightarrow> valid h"
    by simp_all
  let ?s1 = "emit (CallAllocatePrimary pt) s"
  from ANGLE_VK_TRY_total [OF nl, of ctx "''ensurePrimaryCommandBufferValidLocked''" 0 ?s1]
  obtain res s2 where
    t: "ANGLE_VK_TRY ctx ''ensurePrimaryCommandBufferValidLocked'' 0 r ?s1 = Some (res, s2)"
    and f2: "frame ?s1 s2" and rc: "res = Continue \<longleftrightarrow> r = VK_SUCCESS"
    by blast
  from frame_emit f2 have f: "frame s s2" by (rule frame_trans)
  from f cs have cs2: "commands_ok s2" by (simp add: frame_def commands_ok_def)
  show ?thesis
  proof (cases res)
    case Stop
    with False pa t f cs2 show ?thesis
      by (simp add: ensurePrimaryCommandBufferValidLocked_def Let_def frame_def)
  next
    case Continue
    with rc v have "valid h" by simp
    with False pa t Continue f commands_ok_primary [OF cs2 this, of priority pt] show ?thesis
      by (simp add: ensurePrimaryCommandBufferValidLocked_def Let_def frame_def ringsKept_def)
  qed
qed

lemma flushCommands_ok:
  assumes dev: "device_not_lost E" and cs: "commands_ok s"
  shows "\<exists>r s1. CommandPoolAccess_flushCommands E ctx pt priority c s = Some (r, s1) \<and>
           ringsKept s s1 \<and> swapchainStatus s1 = swapchainStatus s \<and> commands_ok s1"
proof -
  let ?s0 = "lock CmdPoolMutex s"
  from cs have cs0: "commands_ok ?s0" by (simp add: commands_ok_lock)
  from ensurePrimary_ok [OF dev cs0, of ctx pt priority] obtain r1 s1 where
    en: "ensurePrimaryCommandBufferValidLocked E ctx pt priority ?s0 = Some (r1, s1)"
    and rk1: "ringsKept ?s0 s1" and sw1: "swapchainStatus s1 = swapchainStatus ?s0"
    and cs1: "commands_ok s1"
    by blast
  from ringsKept_lock rk1 have rk: "ringsKept s s1" by (rule ringsKept_trans)
  from sw1 have sw: "swapchainStatus s1 = swapchainStatus s" by (simp add: lock_def emit_def)
  show ?thesis
  proof (cases r1)
    case Stop
    with en rk sw cs1 show ?thesis
      by (simp add: CommandPoolAccess_flushCommands_def with_lock_def ringsKept_def
          commands_ok_def unlock_def emit_def)
  next
    case Continue
    let ?s2 = "emit (CallFlushToPrimary c (primaryCommands (mCommandsStateMap s1 priority pt))) s1"
    from dev have "flushToPrimary E (events s1) c \<noteq> VK_ERROR_DEVICE_LOST"
      by (simp add: device_not_lost_def)
    from ANGLE_VK_TRY_total [OF this, of ctx "''flushToPrimary''" 0 ?s2]
    obtain res s3 where
      t: "ANGLE_VK_TRY ctx ''flushToPrimary'' 0 (flushToPrimary E (events s1) c) ?s2 =
            Some (res, s3)"
      and f3: "frame ?s2 s3" by blast
    from frame_emit f3 have "frame s1 s3" by (rule frame_trans)
    with rk sw cs1 have "ringsKept s (unlock CmdPoolMutex s3)"
      "swapchainStatus (unlock CmdPoolMutex s3) = swapchainStatus s"
      "commands_ok (unlock CmdPoolMutex s3)"
      by (simp_all add: frame_def ringsKept_def commands_ok_def unlock_def emit_def)
    with en Continue t show ?thesis
      by (simp add: CommandPoolAccess_flushCommands_def with_lock_def)
  qed
qed

lemma flushWaitSemaphores_ok:
  assumes cs: "commands_ok s" and ne: "sems \<noteq> []" and len: "length sems = length masks"
  shows "\<exists>s1. CommandPoolAccess_flushWaitSemaphores pt priority sems masks s = Some s1 \<and>
           ringsKept s s1 \<and> swapchainStatus s1 = swapchainStatus s \<and> commands_ok s1"
  using assms
  by (simp add: CommandPoolAccess_flushWaitSemaphores_def Let_def ringsKept_def lock_def
      unlock_def emit_def commands_ok_def commandsState_ok_def)

lemma present_ok:
  assumes dev: "device_not_lost E" and one: "swapchainCount info = 1"
    and nr: "\<not> hasResults info" and pend: "isPending (swapchainStatus s status)"
  shows "\<exists>s1. processTask E (Present priority info status) s = Some (Continue, s1) \<and>
           ringsKept s s1 \<and> mCommandsStateMap s1 = mCommandsStateMap s \<and>
           (\<forall>st. st \<noteq> status \<longrightarrow> swapchainStatus s1 st = swapchainStatus s st)"
proof -
  let ?s1 = "CommandQueue_queuePresent E priority info status s"
  let ?s2 = "emit (StoreIsPending status False)
               (?s1\<lparr>swapchainStatus :=
                      (swapchainStatus ?s1)
                        (status := (swapchainStatus ?s1 status)\<lparr>isPending := False\<rparr>)\<rparr>)"
  let ?r = "vkQueuePresentKHR E (events (lock QueueSubmitMutex s)) info"
  have res: "lastPresentResult (swapchainStatus ?s1 status) = ?r"
    and p1: "isPending (swapchainStatus ?s1 status)"
    using pend
    by (simp_all add: CommandQueue_queuePresent_def Let_def lock_def unlock_def emit_def)
  with one nr have pr: "CommandProcessor_present E priority info status s = Some (?r, ?s2)"
    by (simp add: CommandProcessor_present_def Let_def)
  have keep: "ringsKept s ?s2" "mCommandsStateMap ?s2 = mCommandsStateMap s"
    "\<forall>st. st \<noteq> status \<longrightarrow> swapchainStatus ?s2 st = swapchainStatus s st"
    by (simp_all add: CommandQueue_queuePresent_def Let_def lock_def unlock_def emit_def
        ringsKept_def)
  show ?thesis
  proof (cases "?r \<noteq> VK_ERROR_OUT_OF_DATE_KHR \<and> ?r \<noteq> VK_SUBOPTIMAL_KHR \<and> ?r \<noteq> VK_SUCCESS")
    case False
    with pr keep show ?thesis by auto
  next
    case True
    from dev have "?r \<noteq> VK_ERROR_DEVICE_LOST" by (simp add: device_not_lost_def)
    with True handleError_total [of ?r thisFile "''processTask''" 765 ?s2] obtain s3 where
      he: "CommandProcessor_handleError ?r thisFile ''processTask'' 765 ?s2 = Some s3"
      and f: "frame ?s2 s3" by blast
    from f keep have "ringsKept s s3" "mCommandsStateMap s3 = mCommandsStateMap s"
      "\<forall>st. st \<noteq> status \<longrightarrow> swapchainStatus s3 st = swapchainStatus s st"
      by (simp_all add: frame_def ringsKept_def)
    with pr True he show ?thesis by simp
  qed
qed


lemma processor_ok_step:
  assumes "processor_ok E (task # rest) s"
    and "queue_ok E (concat (map taskSerial rest)) s1" and "commands_ok s1"
    and "\<forall>st \<in> set (concat (map taskPresent rest)). swapchainStatus s1 st = swapchainStatus s st"
  shows "processor_ok E rest s1"
  using assms by (auto simp: processor_ok_def list_all_iff)

lemma processor_ok_kept:
  assumes ok: "processor_ok E (task # rest) s" and nil: "taskSerial task = []"
    and rk: "ringsKept s s1" and sw: "swapchainStatus s1 = swapchainStatus s"
    and cs: "commands_ok s1"
  shows "processor_ok E rest s1"
proof (rule processor_ok_step [OF ok _ cs])
  from ok nil have "queue_ok E (concat (map taskSerial rest)) s"
    by (simp add: processor_ok_def)
  with rk show "queue_ok E (concat (map taskSerial rest)) s1" by (rule queue_ok_ringsKept)
  from sw show "\<forall>st \<in> set (concat (map taskPresent rest)).
      swapchainStatus s1 st = swapchainStatus s st" by simp
qed

lemma processor_ok_emit: "processor_ok E ts (emit e s) = processor_ok E ts s"
  by (simp add: processor_ok_def queue_ok_def commands_ok_def serialCompleted_def emit_def)

lemma processor_ok_cleanup:
  "processor_ok E ts (s\<lparr>mNeedCommandsAndGarbageCleanup := c\<rparr>) = processor_ok E ts s"
  by (simp add: processor_ok_def queue_ok_def commands_ok_def serialCompleted_def)

lemma processor_ok_tasks:
  "processor_ok E ts (s\<lparr>mTaskQueue := q\<rparr>) = processor_ok E ts s"
  by (simp add: processor_ok_def queue_ok_def commands_ok_def serialCompleted_def)

lemma processTask_ok:
  assumes dev: "device_not_lost E" and ok: "processor_ok E (task # rest) s"
  shows "\<exists>r s1. processTask E task s = Some (r, s1) \<and>
           (r = Continue \<longrightarrow> processor_ok E rest s1)"
proof -
  from ok have cs: "commands_ok s" and tok: "task_ok task"
    by (simp_all add: processor_ok_def)
  show ?thesis
  proof (cases task)
    case Invalid
    with tok show ?thesis by simp
  next
    case (FlushWaitSemaphores pt priority sems masks)
    with tok have "sems \<noteq> []" "length sems = length masks" by simp_all
    from flushWaitSemaphores_ok [OF cs this, of pt priority] obtain s1 where
      "CommandPoolAccess_flushWaitSemaphores pt priority sems masks s = Some s1"
      "ringsKept s s1" "swapchainStatus s1 = swapchainStatus s" "commands_ok s1"
      by blast
    with FlushWaitSemaphores processor_ok_kept [OF ok, of s1] show ?thesis by simp
  next
    case (ProcessOutsideRenderPassCommands pt priority c)
    from flushCommands_ok [OF dev cs, of CommandProcessorContext pt priority c]
    obtain r s1 where
      "CommandPoolAccess_flushCommands E CommandProcessorContext pt priority c s = Some (r, s1)"
      "ringsKept s s1" "swapchainStatus s1 = swapchainStatus s" "commands_ok s1"
      by blast
    with ProcessOutsideRenderPassCommands processor_ok_kept [OF ok, of s1] show ?thesis
      by (cases r) (simp_all add: processor_ok_emit)
  next
    case (ProcessRenderPassCommands pt priority c rp fb)
    from flushCommands_ok [OF dev cs, of CommandProcessorContext pt priority c]
    obtain r s1 where
      "CommandPoolAccess_flushCommands E CommandProcessorContext pt priority c s = Some (r, s1)"
      "ringsKept s s1" "swapchainStatus s1 = swapchainStatus s" "commands_ok s1"
      by blast
    with ProcessRenderPassCommands processor_ok_kept [OF ok, of s1] show ?thesis
      by (cases r) (simp_all add: processor_ok_emit)
  next
    case (FlushAndQueueSubmit sem ext pt priority q)
    with ok tok have qk: "queue_ok E (q # concat (map taskSerial rest)) s"
      and v: "QueueSerial_valid q" "pt \<noteq> InvalidEnum" "ext \<noteq> Some VK_NULL_HANDLE"
      by (simp_all add: processor_ok_def)
    from submitCommands_ok [OF dev qk cs v, of CommandProcessorContext priority sem]
    obtain r s1 where
      run: "CommandQueue_submitCommands E CommandProcessorContext pt priority sem ext q s =
          Some (r, s1)"
      and sw: "swapchainStatus s1 = swapchainStatus s" and cs1: "commands_ok s1"
      and q1: "r = Continue \<longrightarrow> queue_ok E (concat (map taskSerial rest)) s1"
      by blast
    show ?thesis
    proof (cases r)
      case Stop
      with run FlushAndQueueSubmit show ?thesis by simp
    next
      case Continue
      with q1 sw cs1 have "processor_ok E rest s1"
        by (intro processor_ok_step [OF ok]) simp_all
      with run Continue FlushAndQueueSubmit show ?thesis
        by (simp add: processor_ok_cleanup)
    qed
  next
    case (OneOffQueueSubmit cb pt priority ws wm q)
    with ok tok have qk: "queue_ok E (q # concat (map taskSerial rest)) s"
      and v: "QueueSerial_valid q" "pt \<noteq> InvalidEnum"
      by (simp_all add: processor_ok_def)
    from queueSubmitOneOff_ok [OF dev qk cs v, of CommandProcessorContext priority cb ws wm]
    obtain r s1 where
      run: "CommandQueue_queueSubmitOneOff E CommandProcessorContext pt priority cb ws wm q s =
          Some (r, s1)"
      and sw: "swapchainStatus s1 = swapchainStatus s" and cs1: "commands_ok s1"
      and q1: "r = Continue \<longrightarrow> queue_ok E (concat (map taskSerial rest)) s1"
      by blast
    show ?thesis
    proof (cases r)
      case Stop
      with run OneOffQueueSubmit show ?thesis by simp
    next
      case Continue
      with q1 sw cs1 have "processor_ok E rest s1"
        by (intro processor_ok_step [OF ok]) simp_all
      with run Continue OneOffQueueSubmit show ?thesis
        by (simp add: processor_ok_cleanup)
    qed
  next
    case (Present priority info status)
    with ok tok have one: "swapchainCount info = 1" and nr: "\<not> hasResults info"
      and pend: "isPending (swapchainStatus s status)"
      and other: "status \<notin> set (concat (map taskPresent rest))"
      and qk: "queue_ok E (concat (map taskSerial rest)) s"
      by (simp_all add: processor_ok_def)
    from present_ok [OF dev one nr pend, of priority] obtain s1 where
      run: "processTask E (Present priority info status) s = Some (Continue, s1)"
      and rk: "ringsKept s s1" and cm: "mCommandsStateMap s1 = mCommandsStateMap s"
      and sw: "\<forall>st. st \<noteq> status \<longrightarrow> swapchainStatus s1 st = swapchainStatus s st"
      by blast
    from rk qk have "queue_ok E (concat (map taskSerial rest)) s1" by (rule queue_ok_ringsKept)
    moreover from cm cs have "commands_ok s1" by (simp add: commands_ok_def)
    moreover from sw other have "\<forall>st \<in> set (concat (map taskPresent rest)).
        swapchainStatus s1 st = swapchainStatus s st" by auto
    ultimately have "processor_ok E rest s1" by (rule processor_ok_step [OF ok])
    with run Present show ?thesis by simp
  qed
qed

lemma popAndExecuteTasks_spec_total:
  assumes dev: "device_not_lost E"
  shows "processor_ok E ts s \<Longrightarrow> \<exists>n r s1. popAndExecuteTasks_spec E use ts s = Some (n, r, s1)"
proof (induction ts arbitrary: s)
  case Nil
  show ?case by simp
next
  case (Cons task rest)
  show ?case
  proof (cases "hasResourceUseSubmitted use s")
    case True
    then show ?thesis by simp
  next
    case False
    from Cons.prems have "processor_ok E (task # rest) (s\<lparr>mTaskQueue := rest\<rparr>)"
      by (simp add: processor_ok_tasks)
    from processTask_ok [OF dev this] obtain r s1 where
      run: "processTask E task (s\<lparr>mTaskQueue := rest\<rparr>) = Some (r, s1)"
      and ok1: "r = Continue \<longrightarrow> processor_ok E rest s1"
      by blast
    show ?thesis
    proof (cases r)
      case Stop
      with run False show ?thesis by simp
    next
      case Continue
      with ok1 Cons.IH [of s1] obtain n r1 s2 where
        "popAndExecuteTasks_spec E use rest s1 = Some (n, r1, s2)" by blast
      with run False Continue show ?thesis by simp
    qed
  qed
qed


lemma loop_popAndExecuteTasks:
  "mTaskQueue s = ts \<Longrightarrow> m - k = length ts \<Longrightarrow> k \<le> m \<Longrightarrow>
   waitForResourceUseToBeSubmitted_loop E use m k s =
     map_option (\<lambda>(n, r, s1). (r, s1)) (popAndExecuteTasks_spec E use ts s)"
proof (induction ts arbitrary: s k)
  case Nil
  then have "\<not> k < m" by simp
  then show ?case
    by (simp add: waitForResourceUseToBeSubmitted_loop.simps [of E use m k s])
next
  case (Cons task rest)
  then have km: "k < m" by simp
  show ?case
  proof (cases "hasResourceUseSubmitted use s")
    case True
    then show ?thesis
      by (simp add: waitForResourceUseToBeSubmitted_loop.simps [of E use m k s])
  next
    case False
    show ?thesis
    proof (cases "processTask E task (s\<lparr>mTaskQueue := rest\<rparr>)")
      case None
      with False km Cons.prems show ?thesis
        by (simp add: waitForResourceUseToBeSubmitted_loop.simps [of E use m k s]
            FixedQueue_front_def FixedQueue_pop_def)
    next
      case (Some p)
      obtain r s1 where p: "p = (r, s1)" by (cases p)
      from tasks_processTask [of E task "s\<lparr>mTaskQueue := rest\<rparr>" r s1] Some p
      have q: "mTaskQueue s1 = rest" by simp
      show ?thesis
      proof (cases r)
        case Stop
        with Some p False km Cons.prems show ?thesis
          by (simp add: waitForResourceUseToBeSubmitted_loop.simps [of E use m k s]
              FixedQueue_front_def FixedQueue_pop_def)
      next
        case Continue
        from Cons.prems km have "m - (k + 1) = length rest" "k + 1 \<le> m" by simp_all
        from Cons.IH [OF q this]
        have "waitForResourceUseToBeSubmitted_loop E use m (k + 1) s1 =
            map_option (\<lambda>(n, r, s1). (r, s1)) (popAndExecuteTasks_spec E use rest s1)" .
        with Continue Some p False km Cons.prems show ?thesis
          by (simp add: waitForResourceUseToBeSubmitted_loop.simps [of E use m k s]
              FixedQueue_front_def FixedQueue_pop_def option.map_comp comp_def
              split_def)
      qed
    qed
  qed
qed

lemma popAndExecuteTasks_spec_post:
  "popAndExecuteTasks_spec E use ts s = Some (n, r, s1) \<Longrightarrow> mTaskQueue s = ts \<Longrightarrow>
   n \<le> length ts \<and> mTaskQueue s1 = drop n ts \<and>
   (r = Continue \<longrightarrow> n = length ts \<or> hasResourceUseSubmitted use s1) \<and>
   (r = Stop \<longrightarrow> 0 < n)"
proof (induction ts arbitrary: s n)
  case Nil
  then show ?case by auto
next
  case (Cons task rest)
  show ?case
  proof (cases "hasResourceUseSubmitted use s")
    case True
    with Cons.prems show ?thesis by auto
  next
    case False
    with Cons.prems obtain r0 s0 where
      p: "processTask E task (s\<lparr>mTaskQueue := rest\<rparr>) = Some (r0, s0)"
      by (auto split: option.splits)
    from tasks_processTask [OF p] have q: "mTaskQueue s0 = rest" by simp
    show ?thesis
    proof (cases r0)
      case Stop
      with p q False Cons.prems show ?thesis by auto
    next
      case Continue
      with p False Cons.prems obtain n0 where
        n: "n = Suc n0" and
        rec: "popAndExecuteTasks_spec E use rest s0 = Some (n0, r, s1)"
        by auto
      from Cons.IH [OF rec q] n show ?thesis by auto
    qed
  qed
qed

lemma popAndExecuteTasks_spec_none:
  "popAndExecuteTasks_spec E use ts s = Some (0, r, s1) \<Longrightarrow> r = Continue \<and> s1 = s"
  by (cases ts) (auto split: if_splits option.splits Result.splits)

lemma popAndExecuteTasks_spec_trace:
  "popAndExecuteTasks_spec E use ts s = Some (n, r, s1) \<Longrightarrow>
   \<exists>ss. length ss = Suc n \<and> ss ! 0 = s \<and> ss ! n = s1 \<and>
     (\<forall>i<n. \<not> hasResourceUseSubmitted use (ss ! i) \<and>
        processTask E (ts ! i) ((ss ! i)\<lparr>mTaskQueue := drop (Suc i) ts\<rparr>) =
          Some (if Suc i < n then Continue else r, ss ! Suc i))"
proof (induction ts arbitrary: s n)
  case Nil
  then show ?case by (intro exI [of _ "[s]"]) auto
next
  case (Cons task rest)
  show ?case
  proof (cases "hasResourceUseSubmitted use s")
    case True
    with Cons.prems show ?thesis by (intro exI [of _ "[s]"]) auto
  next
    case False
    with Cons.prems obtain r0 s0 where
      p: "processTask E task (s\<lparr>mTaskQueue := rest\<rparr>) = Some (r0, s0)"
      by (auto split: option.splits)
    show ?thesis
    proof (cases r0)
      case Stop
      with p False Cons.prems show ?thesis by (intro exI [of _ "[s, s0]"]) auto
    next
      case Continue
      with p False Cons.prems obtain n0 where
        n: "n = Suc n0" and
        rec: "popAndExecuteTasks_spec E use rest s0 = Some (n0, r, s1)"
        by auto
      from Cons.IH [OF rec] obtain ss where
        len: "length ss = Suc n0" and hd: "ss ! 0 = s0" and lst: "ss ! n0 = s1"
        and steps: "\<forall>i<n0. \<not> hasResourceUseSubmitted use (ss ! i) \<and>
          processTask E (rest ! i) ((ss ! i)\<lparr>mTaskQueue := drop (Suc i) rest\<rparr>) =
            Some (if Suc i < n0 then Continue else r, ss ! Suc i)"
        by blast
      have first: "processTask E task (s\<lparr>mTaskQueue := rest\<rparr>) =
          Some (if 0 < n0 then Continue else r, s0)"
        using p Continue popAndExecuteTasks_spec_none [of E use rest s0 r s1] rec
        by (cases n0) auto
      have "\<forall>i<n. \<not> hasResourceUseSubmitted use ((s # ss) ! i) \<and>
          processTask E ((task # rest) ! i)
            (((s # ss) ! i)\<lparr>mTaskQueue := drop (Suc i) (task # rest)\<rparr>) =
            Some (if Suc i < n then Continue else r, (s # ss) ! Suc i)"
      proof (intro allI impI)
        fix i assume "i < n"
        show "\<not> hasResourceUseSubmitted use ((s # ss) ! i) \<and>
          processTask E ((task # rest) ! i)
            (((s # ss) ! i)\<lparr>mTaskQueue := drop (Suc i) (task # rest)\<rparr>) =
            Some (if Suc i < n then Continue else r, (s # ss) ! Suc i)"
        proof (cases i)
          case 0
          with False first hd n show ?thesis by simp
        next
          case (Suc j)
          with \<open>i < n\<close> n have "j < n0" by simp
          with steps Suc n show ?thesis by simp
        qed
      qed
      with len lst n show ?thesis by (intro exI [of _ "s # ss"]) simp
    qed
  qed
qed

text \<open>The two queued submissions of the example make a well-formed processor.\<close>

lemma processor_ok_two_tasks:
  "kInFlightCommandsLimit E = 2 \<Longrightarrow> kMaxFinishedCommandsLimit E = 3 \<Longrightarrow>
   processor_ok E (mTaskQueue state_two_tasks) state_two_tasks"
  by (simp add: processor_ok_def queue_ok_def commands_ok_def commandsState_ok_def
      serialOrder_def state_two_tasks_def tasks_two_def state_recorded_def state_after_init_def
      CommandsState_empty_def QueueSerial_valid_def kZeroSerial_def)

text \<open>
  C5, as the claim has it, does not hold when errors of the worker are pending: the use
  is not observed submitted and two tasks wait in the queue, yet the call reports the
  errors and returns \<open>Stop\<close> with both tasks still queued.
\<close>

theorem wait_submitted_pending_errors:
  "\<not> hasResourceUseSubmitted use_first state_errors_and_tasks \<and>
   mTaskQueue state_errors_and_tasks = tasks_two \<and>
   map_option (\<lambda>(r, s1). (r, mTaskQueue s1, hasResourceUseSubmitted use_first s1))
     (waitForResourceUseToBeSubmitted device_ok ExternalContext use_first
        state_errors_and_tasks) =
     Some (Stop, tasks_two, False)"
proof -
  let ?s = "lock TaskDequeueMutex state_errors_and_tasks"
  have m: "mErrors ?s \<noteq> []"
    by (simp add: state_errors_and_tasks_def state_two_errors_def lock_def emit_def)
  have u: "\<not> hasResourceUseSubmitted use_first state_errors_and_tasks"
    by (simp add: hasResourceUseSubmitted_def use_first_def example_defs kZeroSerial_def)
  have c: "checkAndPopPendingError ExternalContext ?s =
      Some (Stop, unlock ErrorMutex ((lock ErrorMutex ?s)\<lparr>mErrors := [],
        events := events (lock ErrorMutex ?s) @ map ContextHandleError (mErrors ?s)\<rparr>))"
    using m checkAndPopPendingError_loop_external [of "lock ErrorMutex ?s" "mErrors ?s"]
    by (simp add: checkAndPopPendingError_def with_lock_def lock_def emit_def)
  show ?thesis
    using u
    by (simp add: waitForResourceUseToBeSubmitted_def with_lock_def c)
       (simp add: hasResourceUseSubmitted_def use_first_def example_defs kZeroSerial_def
          lock_def unlock_def emit_def)
qed

text \<open>
  Nor does the call return when the device is lost during a task. The processor hands
  itself to the command queue as the context of a task; its \<open>handleError\<close> answers
  \<open>VK_ERROR_DEVICE_LOST\<close> with \<open>handleDeviceLost\<close>, which locks
  \<open>mTaskEnqueueMutex\<close> twice on the calling thread. With a device that is lost at the
  first submit, the call on the two queued submissions has no result.
\<close>

lemma wait_submitted_device_lost:
  "\<not> hasResourceUseSubmitted use_first state_two_tasks \<and>
   mErrors state_two_tasks = [] \<and>
   processor_ok device_submit_lost (mTaskQueue state_two_tasks) state_two_tasks \<and>
   \<not> device_not_lost device_submit_lost \<and>
   waitForResourceUseToBeSubmitted device_submit_lost ExternalContext use_first
     state_two_tasks = None"
proof -
  let ?s0 = "unlock ErrorMutex (lock ErrorMutex (lock TaskDequeueMutex state_two_tasks))"
  have u: "\<not> hasResourceUseSubmitted use_first state_two_tasks"
    by (simp add: hasResourceUseSubmitted_def use_first_def example_defs kZeroSerial_def)
  have m: "mErrors state_two_tasks = []"
    by (simp add: example_defs)
  have p: "processor_ok device_submit_lost (mTaskQueue state_two_tasks) state_two_tasks"
    by (rule processor_ok_two_tasks) (simp_all add: device_submit_lost_def device_ok_def)
  have d: "\<not> device_not_lost device_submit_lost"
    by (simp add: device_not_lost_def device_submit_lost_def device_ok_def)
  have q: "mTaskQueue ?s0 = mTaskQueue state_two_tasks"
    by (simp add: lock_def unlock_def emit_def)
  have c: "checkAndPopPendingError ExternalContext (lock TaskDequeueMutex state_two_tasks) =
      Some (Continue, ?s0)"
    using m
    by (simp add: checkAndPopPendingError_def with_lock_def lock_def unlock_def emit_def)
  have e: "popAndExecuteTasks_spec device_submit_lost use_first (mTaskQueue state_two_tasks) ?s0
      = None"
    by (simp add: hasResourceUseSubmitted_def submit_defs queue_defs batch_defs fence_defs
        effect_defs example_defs device_submit_lost_def CommandProcessor_handleError_def
        CommandProcessor_handleDeviceLost_def)
  have l: "waitForResourceUseToBeSubmitted_loop device_submit_lost use_first
      (length (mTaskQueue ?s0)) 0 ?s0 =
      map_option (\<lambda>(n, r, s1). (r, s1))
        (popAndExecuteTasks_spec device_submit_lost use_first (mTaskQueue state_two_tasks) ?s0)"
    by (rule loop_popAndExecuteTasks) (simp_all add: q)
  have "waitForResourceUseToBeSubmitted device_submit_lost ExternalContext use_first
      state_two_tasks = None"
    using u by (simp add: waitForResourceUseToBeSubmitted_def with_lock_def c l e)
  with u m p d show ?thesis by blast
qed

text \<open>
  C5, amended: when no error of the worker is pending, the use is not yet observed
  submitted, the device is not lost and the processor with its task queue is well formed,
  \<open>waitForResourceUseToBeSubmitted\<close> returns. It takes the dequeue lock and does what
  the specification says: it pops tasks from the front of the queue and executes them
  itself, one after the other, each one on the queue behind it and only while the use is
  not observed submitted. It executes at most as many tasks as the queue held at entry and
  leaves the rest of the queue in place. Every executed task but the last returns
  \<open>Continue\<close>, and the call returns what the last one returns: \<open>Continue\<close>, and then
  the use is observed submitted or the whole entry queue has been executed, or \<open>Stop\<close>,
  after at least one task. It returns \<open>Continue\<close> too when it executes no task.
\<close>

theorem wait_submitted_pops_tasks:
  assumes "\<not> hasResourceUseSubmitted use s" and "mErrors s = []"
    and "device_not_lost E" and "processor_ok E (mTaskQueue s) s"
  shows "\<exists>n r s1 ss.
           waitForResourceUseToBeSubmitted E context use s =
             Some (r, unlock TaskDequeueMutex s1) \<and>
           popAndExecuteTasks_spec E use (mTaskQueue s)
             (unlock ErrorMutex (lock ErrorMutex (lock TaskDequeueMutex s))) = Some (n, r, s1) \<and>
           n \<le> length (mTaskQueue s) \<and>
           mTaskQueue s1 = drop n (mTaskQueue s) \<and>
           (r = Continue \<longrightarrow> n = length (mTaskQueue s) \<or> hasResourceUseSubmitted use s1) \<and>
           (r = Stop \<longrightarrow> 0 < n) \<and>
           length ss = Suc n \<and>
           ss ! 0 = unlock ErrorMutex (lock ErrorMutex (lock TaskDequeueMutex s)) \<and>
           ss ! n = s1 \<and>
           (\<forall>i<n. \<not> hasResourceUseSubmitted use (ss ! i) \<and>
              processTask E (mTaskQueue s ! i)
                ((ss ! i)\<lparr>mTaskQueue := drop (Suc i) (mTaskQueue s)\<rparr>) =
                Some (if Suc i < n then Continue else r, ss ! Suc i))"
proof -
  let ?s0 = "unlock ErrorMutex (lock ErrorMutex (lock TaskDequeueMutex s))"
  have q: "mTaskQueue ?s0 = mTaskQueue s"
    by (simp add: lock_def unlock_def emit_def)
  have c: "checkAndPopPendingError context (lock TaskDequeueMutex s) = Some (Continue, ?s0)"
    using assms(2)
    by (simp add: checkAndPopPendingError_def with_lock_def lock_def unlock_def emit_def)
  have l: "waitForResourceUseToBeSubmitted_loop E use (length (mTaskQueue ?s0)) 0 ?s0 =
      map_option (\<lambda>(n, r, s1). (r, s1)) (popAndExecuteTasks_spec E use (mTaskQueue s) ?s0)"
    by (rule loop_popAndExecuteTasks) (simp_all add: q)
  have w: "waitForResourceUseToBeSubmitted E context use s =
      map_option (\<lambda>(n, r, s1). (r, unlock TaskDequeueMutex s1))
        (popAndExecuteTasks_spec E use (mTaskQueue s) ?s0)"
    using assms(1)
    by (simp add: waitForResourceUseToBeSubmitted_def with_lock_def c l
        split: option.splits)
  from assms(4) have "processor_ok E (mTaskQueue s) ?s0"
    by (simp add: lock_def unlock_def processor_ok_emit)
  from popAndExecuteTasks_spec_total [OF assms(3) this, of use] obtain n r s1 where
    p: "popAndExecuteTasks_spec E use (mTaskQueue s) ?s0 = Some (n, r, s1)" by blast
  from popAndExecuteTasks_spec_trace [OF p] obtain ss where
    tr: "length ss = Suc n" "ss ! 0 = ?s0" "ss ! n = s1"
      "\<forall>i<n. \<not> hasResourceUseSubmitted use (ss ! i) \<and>
         processTask E (mTaskQueue s ! i)
           ((ss ! i)\<lparr>mTaskQueue := drop (Suc i) (mTaskQueue s)\<rparr>) =
           Some (if Suc i < n then Continue else r, ss ! Suc i)"
    by blast
  from p w have "waitForResourceUseToBeSubmitted E context use s =
      Some (r, unlock TaskDequeueMutex s1)" by simp
  with popAndExecuteTasks_spec_post [OF p q] p tr show ?thesis by blast
qed

theorem wait_submitted_pops_tasks_witness:
  "\<not> hasResourceUseSubmitted use_first state_two_tasks \<and>
   mErrors state_two_tasks = [] \<and>
   device_not_lost device_ok \<and> device_not_lost device_submit_fails \<and>
   processor_ok device_ok (mTaskQueue state_two_tasks) state_two_tasks \<and>
   processor_ok device_submit_fails (mTaskQueue state_two_tasks) state_two_tasks \<and>
   length (mTaskQueue state_two_tasks) = 2 \<and>
   (\<exists>s1. waitForResourceUseToBeSubmitted device_ok ExternalContext use_first
            state_two_tasks = Some (Continue, s1) \<and>
      mTaskQueue s1 = drop 1 (mTaskQueue state_two_tasks) \<and>
      hasResourceUseSubmitted use_first s1) \<and>
   (\<exists>s1. waitForResourceUseToBeSubmitted device_submit_fails ExternalContext use_first
            state_two_tasks = Some (Stop, s1) \<and>
      mTaskQueue s1 = drop 1 (mTaskQueue state_two_tasks) \<and>
      \<not> hasResourceUseSubmitted use_first s1)"
proof -
  let ?s0 = "unlock ErrorMutex (lock ErrorMutex (lock TaskDequeueMutex state_two_tasks))"
  have u: "\<not> hasResourceUseSubmitted use_first state_two_tasks"
    by (simp add: hasResourceUseSubmitted_def use_first_def example_defs kZeroSerial_def)
  have m: "mErrors state_two_tasks = []"
    by (simp add: example_defs)
  have len: "length (mTaskQueue state_two_tasks) = 2"
    by (simp add: example_defs)
  have d: "device_not_lost device_ok"
    by (simp add: device_not_lost_def device_ok_def valid_def VK_NULL_HANDLE_def)
  have df: "device_not_lost device_submit_fails"
    by (simp add: device_not_lost_def device_submit_fails_def device_ok_def valid_def
        VK_NULL_HANDLE_def)
  have p: "processor_ok device_ok (mTaskQueue state_two_tasks) state_two_tasks"
    by (rule processor_ok_two_tasks) (simp_all add: device_ok_def)
  have pf: "processor_ok device_submit_fails (mTaskQueue state_two_tasks) state_two_tasks"
    by (rule processor_ok_two_tasks) (simp_all add: device_submit_fails_def device_ok_def)
  have e: "map_option (\<lambda>(n, r, s1). (n, r))
      (popAndExecuteTasks_spec device_ok use_first (mTaskQueue state_two_tasks) ?s0) =
      Some (1, Continue)"
    by (simp add: hasResourceUseSubmitted_def submit_defs queue_defs batch_defs fence_defs
        effect_defs example_defs)
  have ef: "map_option (\<lambda>(n, r, s1). (n, r, hasResourceUseSubmitted use_first s1))
      (popAndExecuteTasks_spec device_submit_fails use_first (mTaskQueue state_two_tasks) ?s0) =
      Some (1, Stop, False)"
    by (simp add: hasResourceUseSubmitted_def submit_defs queue_defs batch_defs fence_defs
        effect_defs example_defs CommandProcessor_handleError_def)
  have sub: "hasResourceUseSubmitted use_first (unlock TaskDequeueMutex t) =
      hasResourceUseSubmitted use_first t" for t
    by (simp add: hasResourceUseSubmitted_def unlock_def emit_def)
  have tq: "mTaskQueue (unlock TaskDequeueMutex t) = mTaskQueue t" for t
    by (simp add: unlock_def emit_def)
  from wait_submitted_pops_tasks [OF u m d p, of ExternalContext] obtain n r s1 where
    "waitForResourceUseToBeSubmitted device_ok ExternalContext use_first state_two_tasks =
       Some (r, unlock TaskDequeueMutex s1)"
    "popAndExecuteTasks_spec device_ok use_first (mTaskQueue state_two_tasks) ?s0 =
       Some (n, r, s1)"
    "mTaskQueue s1 = drop n (mTaskQueue state_two_tasks)"
    "r = Continue \<longrightarrow> n = length (mTaskQueue state_two_tasks) \<or>
       hasResourceUseSubmitted use_first s1"
    by blast
  with e len
  have a: "\<exists>s1. waitForResourceUseToBeSubmitted device_ok ExternalContext use_first
            state_two_tasks = Some (Continue, s1) \<and>
      mTaskQueue s1 = drop 1 (mTaskQueue state_two_tasks) \<and>
      hasResourceUseSubmitted use_first s1"
    by (auto simp: sub tq)
  from wait_submitted_pops_tasks [OF u m df pf, of ExternalContext] obtain n r s1 where
    "waitForResourceUseToBeSubmitted device_submit_fails ExternalContext use_first
       state_two_tasks = Some (r, unlock TaskDequeueMutex s1)"
    "popAndExecuteTasks_spec device_submit_fails use_first (mTaskQueue state_two_tasks) ?s0 =
       Some (n, r, s1)"
    "mTaskQueue s1 = drop n (mTaskQueue state_two_tasks)"
    by blast
  with ef
  have b: "\<exists>s1. waitForResourceUseToBeSubmitted device_submit_fails ExternalContext use_first
            state_two_tasks = Some (Stop, s1) \<and>
      mTaskQueue s1 = drop 1 (mTaskQueue state_two_tasks) \<and>
      \<not> hasResourceUseSubmitted use_first s1"
    by (auto simp: sub tq)
  from u m d df p pf len a b show ?thesis by blast
qed

end
